theory Spec2Isabelle
  imports Main "HOL-Library.Sublist"
begin

section \<open>Python values\<close>

text \<open>
  A Python \<open>str\<close> is a sequence of Unicode code points, a \<open>bytes\<close> object a sequence of
  bytes. The two are kept apart because the program converts between them with the
  \<open>ascii\<close> and \<open>utf-8\<close> codecs, and both conversions can raise.
\<close>

type_synonym pystr = "nat list"
type_synonym bytes = "char list"

definition str :: "string \<Rightarrow> pystr" where
  \<comment> \<open>a string literal of the source, as code points\<close>
  "str s = map of_char s"

definition py_isspace :: "nat \<Rightarrow> bool" where
  \<comment> \<open>the code points \<open>str.strip()\<close> and the pattern \<open>\s\<close> take for whitespace\<close>
  "py_isspace c \<longleftrightarrow>
     (9 \<le> c \<and> c \<le> 13) \<or> (28 \<le> c \<and> c \<le> 32) \<or> c = 133 \<or> c = 160 \<or> c = 5760 \<or>
     (8192 \<le> c \<and> c \<le> 8202) \<or> c = 8232 \<or> c = 8233 \<or> c = 8239 \<or> c = 8287 \<or> c = 12288"

definition py_strip :: "pystr \<Rightarrow> pystr" where
  \<comment> \<open>\<open>s.strip()\<close>\<close>
  "py_strip s = rev (dropWhile py_isspace (rev (dropWhile py_isspace s)))"

fun py_split :: "nat \<Rightarrow> pystr \<Rightarrow> pystr list" where
  \<comment> \<open>\<open>s.split(sep)\<close> for a separator of one character\<close>
  "py_split sep [] = [[]]"
| "py_split sep (c # cs) =
     (if c = sep then [] # py_split sep cs
      else (case py_split sep cs of
              [] \<Rightarrow> [[c]]
            | p # ps \<Rightarrow> (c # p) # ps))"

definition rfind :: "pystr \<Rightarrow> nat \<Rightarrow> int" where
  \<comment> \<open>\<open>p.rfind(c)\<close>: the index of the last \<open>c\<close>, or \<open>-1\<close>\<close>
  "rfind p c =
     (if c \<in> set p then int (length p) - 1 - int (length (takeWhile (\<lambda>x. x \<noteq> c) (rev p)))
      else - 1)"

section \<open>Paths: \<open>os.path\<close> as \<open>posixpath\<close>\<close>

definition sep :: nat where "sep = 47"
definition extsep :: nat where "extsep = 46"

definition rstrip_sep :: "pystr \<Rightarrow> pystr" where
  "rstrip_sep p = rev (dropWhile (\<lambda>c. c = sep) (rev p))"

definition os_path_split :: "pystr \<Rightarrow> pystr \<times> pystr" where
  "os_path_split p =
     (let i = nat (rfind p sep + 1);
          head = take i p;
          tail = drop i p
      in (if head \<noteq> [] \<and> head \<noteq> replicate (length head) sep then rstrip_sep head else head,
          tail))"

definition os_path_splitext :: "pystr \<Rightarrow> pystr \<times> pystr" where
  "os_path_splitext p =
     (let sepIndex = rfind p sep;
          dotIndex = rfind p extsep
      in if dotIndex > sepIndex \<and>
            list_ex (\<lambda>k. p ! k \<noteq> extsep) [nat (sepIndex + 1) ..< nat dotIndex]
         then (take (nat dotIndex) p, drop (nat dotIndex) p)
         else (p, []))"

section \<open>Device file names\<close>

definition reserved :: "nat \<Rightarrow> bool" where
  \<comment> \<open>the character class \<open>[:*?"<>|]\<close>\<close>
  "reserved c \<longleftrightarrow> c = 58 \<or> c = 42 \<or> c = 63 \<or> c = 34 \<or> c = 60 \<or> c = 62 \<or> c = 124"

definition re_sub_reserved :: "pystr \<Rightarrow> pystr" where
  \<comment> \<open>\<open>re.sub(r'[:*?"<>|]', "", s)\<close>\<close>
  "re_sub_reserved s = filter (\<lambda>c. \<not> reserved c) s"

definition get_devicename :: "pystr \<Rightarrow> pystr" where
  "get_devicename filepath =
     (let filename = snd (os_path_split filepath);
          filename = hd (py_split extsep filename)
      in take 24 (re_sub_reserved filename))"

definition devicename_spec :: "pystr \<Rightarrow> pystr" where
  \<comment> \<open>the name as the specification words it: the base name without its extension,
      illegal characters stripped, capped at 24\<close>
  "devicename_spec filepath =
     take 24 (re_sub_reserved (fst (os_path_splitext (snd (os_path_split filepath)))))"

section \<open>Codecs\<close>

datatype runtime_error =
    NoResponse pystr
    \<comment> \<open>"Got no response to command ...", with the command text\<close>
  | DeviceError pystr pystr
    \<comment> \<open>"BL600 returned error %s: %s", with the error code and its description\<close>
  | UnexpectedResponse pystr bytes
    \<comment> \<open>"Got unexpected/error response to command 'AT%s': %s", with args and the response\<close>
  | IncludeMissing pystr
    \<comment> \<open>"Included file ... does not exist", with the path\<close>

datatype py_error =
    RuntimeError runtime_error  \<comment> \<open>the module's own exception class\<close>
  | UnicodeDecodeError
  | UnicodeEncodeError
  | IndexError
  | RecursionError
  | OSError pystr               \<comment> \<open>a file that cannot be opened or read\<close>
  | EvalError pystr             \<comment> \<open>whatever \<open>eval\<close> raises\<close>

definition encode_ascii :: "pystr \<Rightarrow> py_error + bytes" where
  \<comment> \<open>\<open>bytearray(s, "ascii")\<close>\<close>
  "encode_ascii s =
     (if list_all (\<lambda>c. c < 128) s then Inr (map char_of s) else Inl UnicodeEncodeError)"

definition decode_ascii :: "bytes \<Rightarrow> py_error + pystr" where
  \<comment> \<open>\<open>str(b, "ascii")\<close>\<close>
  "decode_ascii b =
     (if list_all (\<lambda>c. of_char c < (128 :: nat)) b then Inr (map of_char b)
      else Inl UnicodeDecodeError)"

definition cont :: "nat \<Rightarrow> nat \<Rightarrow> nat \<Rightarrow> bool" where
  \<comment> \<open>a continuation byte within the given bounds\<close>
  "cont lo hi c \<longleftrightarrow> lo \<le> c \<and> c \<le> hi"

definition lo2 :: "nat \<Rightarrow> nat" where
  \<comment> \<open>the least second byte after a lead byte: no overlong forms\<close>
  "lo2 b = (if b = 224 then 160 else if b = 240 then 144 else 128)"

definition hi2 :: "nat \<Rightarrow> nat" where
  \<comment> \<open>the greatest second byte after a lead byte: no surrogates, nothing above U+10FFFF\<close>
  "hi2 b = (if b = 237 then 159 else if b = 244 then 143 else 191)"

fun utf8 :: "nat list \<Rightarrow> pystr option" where
  \<comment> \<open>the strict UTF-8 decoder, on byte values\<close>
  "utf8 [] = Some []"
| "utf8 (b # bs) =
     (if b < 128 then map_option (Cons b) (utf8 bs)
      else if 194 \<le> b \<and> b \<le> 223 then
        (case bs of
           c1 # r \<Rightarrow>
             if cont 128 191 c1
             then map_option (Cons ((b - 192) * 64 + (c1 - 128))) (utf8 r)
             else None
         | _ \<Rightarrow> None)
      else if 224 \<le> b \<and> b \<le> 239 then
        (case bs of
           c1 # c2 # r \<Rightarrow>
             if cont (lo2 b) (hi2 b) c1 \<and> cont 128 191 c2
             then map_option (Cons ((b - 224) * 4096 + (c1 - 128) * 64 + (c2 - 128))) (utf8 r)
             else None
         | _ \<Rightarrow> None)
      else if 240 \<le> b \<and> b \<le> 244 then
        (case bs of
           c1 # c2 # c3 # r \<Rightarrow>
             if cont (lo2 b) (hi2 b) c1 \<and> cont 128 191 c2 \<and> cont 128 191 c3
             then map_option
                    (Cons ((b - 240) * 262144 + (c1 - 128) * 4096 + (c2 - 128) * 64 + (c3 - 128)))
                    (utf8 r)
             else None
         | _ \<Rightarrow> None)
      else None)"

definition decode_utf8 :: "bytes \<Rightarrow> py_error + pystr" where
  \<comment> \<open>\<open>b.decode()\<close> and \<open>b.decode('utf-8')\<close>\<close>
  "decode_utf8 b =
     (case utf8 (map of_char b) of None \<Rightarrow> Inl UnicodeDecodeError | Some s \<Rightarrow> Inr s)"

definition startswith :: "'a list \<Rightarrow> 'a list \<Rightarrow> bool" where
  "startswith s p \<longleftrightarrow> take (length p) s = p"

definition endswith :: "'a list \<Rightarrow> 'a list \<Rightarrow> bool" where
  "endswith s p \<longleftrightarrow> length p \<le> length s \<and> drop (length s - length p) s = p"

fun contains :: "pystr \<Rightarrow> pystr \<Rightarrow> bool" where
  \<comment> \<open>\<open>sub in s\<close>\<close>
  "contains [] sub = (sub = [])"
| "contains (c # cs) sub = (startswith (c # cs) sub \<or> contains cs sub)"

definition hexdigit :: "nat \<Rightarrow> nat" where
  "hexdigit d = (if d < 10 then 48 + d else 87 + d)"

definition hex2 :: "char \<Rightarrow> pystr" where
  \<comment> \<open>\<open>"%02x" % x\<close> for a byte\<close>
  "hex2 x = [hexdigit (of_char x div 16), hexdigit (of_char x mod 16)]"

section \<open>The serial port, the clock and the console\<close>

text \<open>
  The device and the clock are outside the program. The world holds what they will do:
  \<open>line\<close> lists the results of the reads still to come, each with the time the call
  blocks; once it is used up the line is silent, and a read blocks for the port's
  timeout of two seconds (\<open>serial.Serial(..., timeout=2)\<close>) and returns no bytes.
  \<open>now\<close> is what \<open>time.time()\<close> returns, in milliseconds; it advances while a read
  blocks and while the program sleeps, and the program's own steps take no time.
  \<open>sent\<close> and \<open>stdout\<close> record what the program wrote to the port and printed,
  one entry for each call.
\<close>

record world =
  now :: int
  line :: "(int \<times> bytes) list"
  sent :: "bytes list"
  stdout :: "pystr list"

definition port_timeout :: int where
  "port_timeout = 2000"

definition port_write :: "bytes \<Rightarrow> world \<Rightarrow> world" where
  "port_write b w = w\<lparr>sent := sent w @ [b]\<rparr>"

definition port_read :: "nat \<Rightarrow> world \<Rightarrow> bytes \<times> world" where
  \<comment> \<open>\<open>self.port.read(sz)\<close>\<close>
  "port_read sz w =
     (case line w of
        [] \<Rightarrow> ([], w\<lparr>now := now w + port_timeout\<rparr>)
      | (dt, data) # rest \<Rightarrow> (take sz data, w\<lparr>now := now w + dt, line := rest\<rparr>))"

definition sleep :: "int \<Rightarrow> world \<Rightarrow> world" where
  "sleep dt w = w\<lparr>now := now w + dt\<rparr>"

definition print :: "pystr \<Rightarrow> world \<Rightarrow> world" where
  "print s w = w\<lparr>stdout := stdout w @ [s]\<rparr>"

text \<open>
  What the program reads from its surroundings and does not change: the lines of
  \<open>codes.csv\<close> (or the error of opening it), the value of \<open>str(eval(src))\<close> for a source
  text, the path functions that depend on the working directory and the home directory,
  and the files.
\<close>

record env =
  codes_csv :: "py_error + pystr list"
  eval_str :: "pystr \<Rightarrow> py_error + pystr"
  expanduser :: "pystr \<Rightarrow> pystr"
  abspath :: "pystr \<Rightarrow> pystr"
  path_exists :: "pystr \<Rightarrow> bool"
  read_text :: "pystr \<Rightarrow> py_error + pystr"
  read_binary :: "pystr \<Rightarrow> py_error + bytes"

section \<open>Error descriptions\<close>

definition dquote :: nat where "dquote = 34"

fun scan_codes :: "(pystr \<Rightarrow> py_error + pystr) \<Rightarrow> pystr \<Rightarrow> pystr list \<Rightarrow> py_error + pystr" where
  \<comment> \<open>the loop over the lines of \<open>codes.csv\<close>\<close>
  "scan_codes ev code [] = Inr (str ''(no description available)'')"
| "scan_codes ev code (l # ls) =
     (case ev (str ''0x'' @ code) of
        Inl err \<Rightarrow> Inl err
      | Inr n \<Rightarrow>
          if contains l n then
            (case py_split dquote l of
               _ # d # _ \<Rightarrow> Inr d
             | _ \<Rightarrow> Inl IndexError)
          else scan_codes ev code ls)"

definition get_errordesc :: "env \<Rightarrow> pystr \<Rightarrow> py_error + pystr" where
  "get_errordesc e code =
     (case codes_csv e of
        Inl err \<Rightarrow> Inl err
      | Inr ls \<Rightarrow> scan_codes (eval_str e) code ls)"

section \<open>Commands and responses\<close>

definition SUCCESS :: bytes where
  \<comment> \<open>\<open>b"00\r"\<close>\<close>
  "SUCCESS = [CHR ''0'', CHR ''0'', CHR 0x0D]"

definition ERROR_PREFIX :: bytes where
  \<comment> \<open>\<open>b'\n01\t'\<close>\<close>
  "ERROR_PREFIX = [CHR 0x0A, CHR ''0'', CHR ''1'', CHR 0x09]"

definition command_text :: "pystr \<Rightarrow> pystr" where
  \<comment> \<open>\<open>f"AT{'' if args.startswith('+') else ' '}{args}\r"\<close>\<close>
  "command_text args =
     str ''AT'' @ (if startswith args (str ''+'') then [] else str '' '') @ args @ [13]"

function read_response :: "int \<Rightarrow> world \<Rightarrow> bytes \<Rightarrow> bytes \<times> world" where
  \<comment> \<open>the \<open>while\<close> loop of \<open>writecmd\<close>, with the deadline \<open>start + timeout\<close>\<close>
  "read_response deadline w response =
     (if \<not> endswith response SUCCESS \<and> now w < deadline
      then read_response deadline (snd (port_read 1 w)) (response @ fst (port_read 1 w))
      else (response, w))"
  by pat_completeness auto
termination
  by (relation "measures [\<lambda>(d, w, r). length (line w), \<lambda>(d, w, r). nat (d - now w)]")
     (auto simp: port_read_def port_timeout_def split: list.splits)

declare read_response.simps [simp del]

definition response_result :: "env \<Rightarrow> pystr \<Rightarrow> pystr \<Rightarrow> bytes \<Rightarrow> py_error + pystr option" where
  \<comment> \<open>what \<open>writecmd\<close> does with the bytes it has read\<close>
  "response_result e command args response =
     (if endswith response SUCCESS then
        (case decode_ascii response of
           Inl err \<Rightarrow> Inl err
         | Inr s \<Rightarrow> Inr (Some (py_strip (take (length s - 3) s))))
      else if length response = 0 then Inl (RuntimeError (NoResponse command))
      else if length response > 4 \<and> take 4 response = ERROR_PREFIX then
        (case decode_utf8 (drop 4 response) of
           Inl err \<Rightarrow> Inl err
         | Inr t \<Rightarrow>
             (let errorcode = butlast t in
              case get_errordesc e errorcode of
                Inl err \<Rightarrow> Inl err
              | Inr desc \<Rightarrow> Inl (RuntimeError (DeviceError errorcode desc))))
      else Inl (RuntimeError (UnexpectedResponse args response)))"

definition writecmd ::
  "env \<Rightarrow> pystr \<Rightarrow> bool \<Rightarrow> int \<Rightarrow> world \<Rightarrow> (py_error + pystr option) \<times> world" where
  \<comment> \<open>\<open>Inr None\<close> is the \<open>None\<close> returned when no response is expected\<close>
  "writecmd e args expect_response timeout w =
     (let command = command_text args in
      case encode_ascii command of
        Inl err \<Rightarrow> (Inl err, w)
      | Inr data \<Rightarrow>
          (let w1 = port_write data w in
           if \<not> expect_response then (Inr None, w1)
           else
             (let start = now w1;
                  (response, w2) = read_response (start + timeout) w1 []
              in (response_result e command args response, w2))))"

definition and_then ::
  "(py_error + 'a) \<times> world \<Rightarrow> ('a \<Rightarrow> world \<Rightarrow> (py_error + 'b) \<times> world) \<Rightarrow>
   (py_error + 'b) \<times> world" where
  \<comment> \<open>the next statement runs unless the one before raised\<close>
  "and_then r f = (case r of (Inl err, w) \<Rightarrow> (Inl err, w) | (Inr x, w) \<Rightarrow> f x w)"

section \<open>Upload\<close>

function chunks :: "bytes \<Rightarrow> nat \<Rightarrow> bytes list" where
  \<comment> \<open>the generator, over the part of the file not yet read\<close>
  "chunks somefile chunklen =
     (if length (take chunklen somefile) = 0 then []
      else take chunklen somefile # chunks (drop chunklen somefile) chunklen)"
  by pat_completeness auto
termination
  by (relation "measure (\<lambda>(f, n). length f)") auto

declare chunks.simps [simp del]

definition quoted :: "pystr \<Rightarrow> pystr" where
  \<comment> \<open>\<open>'"%s"' % s\<close>\<close>
  "quoted s = [dquote] @ s @ [dquote]"

fun write_rows :: "env \<Rightarrow> bytes list \<Rightarrow> world \<Rightarrow> (py_error + unit) \<times> world" where
  \<comment> \<open>the \<open>for\<close> loop of \<open>upload\<close>\<close>
  "write_rows e [] w = (Inr (), w)"
| "write_rows e (l # ls) w =
     (let row = concat (map hex2 l) in
      case writecmd e (str ''+FWRH '' @ quoted row) True 500 w of
        (Inl err, w') \<Rightarrow> (Inl err, w')
      | (Inr _, w') \<Rightarrow> write_rows e ls w')"

definition uwc_path :: "env \<Rightarrow> pystr \<Rightarrow> pystr" where
  \<comment> \<open>the first lines of \<open>upload\<close>: the path of the compiled file\<close>
  "uwc_path e filepath =
     (let filepath = expanduser e filepath;
          filepath = abspath e filepath;
          parts = os_path_splitext filepath
      in if snd parts \<noteq> str ''.uwc'' then fst parts @ str ''.uwc'' else filepath)"

definition upload :: "env \<Rightarrow> pystr \<Rightarrow> world \<Rightarrow> (py_error + unit) \<times> world" where
  "upload e filepath w =
     (let filepath = uwc_path e filepath;
          devicename = get_devicename filepath;
          w = print (str ''Uploading '' @ filepath @ str '' as '' @ devicename) w
      in and_then (writecmd e (str ''+DEL '' @ quoted devicename @ str '' +'') True 500 w) (\<lambda>_ w.
         and_then (writecmd e (str ''+FOW '' @ quoted devicename) True 500 w) (\<lambda>_ w.
         and_then (case read_binary e filepath of
                     Inl err \<Rightarrow> (Inl err, w)
                   | Inr f \<Rightarrow> (Inr f, w)) (\<lambda>f w.
         and_then (write_rows e (chunks f 16) w) (\<lambda>_ w.
         and_then (writecmd e (str ''+FCL'') True 500 w) (\<lambda>_ w.
         (Inr (), print (str ''Upload success'') w)))))))"

definition frame :: "pystr \<Rightarrow> bytes" where
  \<comment> \<open>the bytes \<open>writecmd\<close> writes for a command whose text is ASCII\<close>
  "frame args = map char_of (command_text args)"

definition upload_sequence :: "pystr \<Rightarrow> bytes \<Rightarrow> bytes list" where
  \<comment> \<open>the commands of an upload as the specification lists them: delete, create, one
      write for each chunk of 16 bytes, close\<close>
  "upload_sequence devicename f =
     [frame (str ''+DEL '' @ quoted devicename @ str '' +''),
      frame (str ''+FOW '' @ quoted devicename)] @
     map (\<lambda>l. frame (str ''+FWRH '' @ quoted (concat (map hex2 l)))) (chunks f 16) @
     [frame (str ''+FCL'')]"

section \<open>Run and format\<close>

definition IGNORED :: bytes where
  \<comment> \<open>\<open>b'\n00'\<close>\<close>
  "IGNORED = [CHR 0x0A, CHR ''0'', CHR ''0'']"

definition run_report :: "env \<Rightarrow> bytes \<Rightarrow> world \<Rightarrow> (py_error + unit) \<times> world" where
  \<comment> \<open>what \<open>run\<close> does with the bytes of its direct read\<close>
  "run_report e output w =
     (if length output \<noteq> 0 then
        if length output \<ge> 3 \<and> drop (length output - 3) output = SUCCESS then
          and_then
            (if length output > 3 then
               (case decode_utf8 (take (length output - 3) output) of
                  Inl err \<Rightarrow> (Inl err, w)
                | Inr s \<Rightarrow> (Inr (), print (str ''Output:'' @ [10] @ s) w))
             else (Inr (), w))
            (\<lambda>_ w. (Inr (), print (str ''Program completed successfully.'') w))
        else if length output > 4 \<and> take 4 output = ERROR_PREFIX then
          (case decode_utf8 (drop 4 output) of
             Inl err \<Rightarrow> (Inl err, w)
           | Inr t \<Rightarrow>
               (let errorcode = butlast t in
                case get_errordesc e errorcode of
                  Inl err \<Rightarrow> (Inl err, w)
                | Inr desc \<Rightarrow> (Inr (), print (str ''Error '' @ errorcode @ str '': '' @ desc) w)))
        else if output \<noteq> IGNORED then
          (case decode_utf8 output of
             Inl err \<Rightarrow> (Inl err, w)
           | Inr s \<Rightarrow> (Inr (), print (str ''Immediate output:'' @ [10] @ s) w))
        else (Inr (), w)
      else (Inr (), print (str ''No immediate output, program probably running...'') w))"

definition run :: "env \<Rightarrow> pystr \<Rightarrow> world \<Rightarrow> (py_error + unit) \<times> world" where
  "run e filepath w =
     (let devicename = get_devicename filepath in
      and_then (writecmd e [] True 500 w) (\<lambda>_ w.
        (let w = print (str ''Running '' @ devicename @ str ''...'') w in
         and_then (writecmd e (str ''+RUN '' @ quoted devicename) False 500 w) (\<lambda>_ w.
           (let (output, w) = port_read 1024 w in run_report e output w)))))"

definition format :: "env \<Rightarrow> world \<Rightarrow> (py_error + unit) \<times> world" where
  "format e w =
     (let w = print (str ''Formatting BL600...'') w in
      and_then (writecmd e (str ''Z'') True 5000 w) (\<lambda>_ w.
      and_then (writecmd e [] True 500 w) (\<lambda>_ w.
      and_then (writecmd e (str ''&F 1'') False 500 w) (\<lambda>_ w.
        (let w = sleep 200 w;
             w = snd (port_read 1024 w);
             w = print (str ''Format complete. Reconnecting...'') w
         in and_then (writecmd e [] True 500 w) (\<lambda>_ w. (Inr (), w)))))))"

section \<open>The include preprocessor\<close>

definition INCLUDE :: pystr where
  "INCLUDE = str ''#include''"

definition newline :: nat where "newline = 10"

definition match_here :: "pystr \<Rightarrow> (nat \<times> pystr) option" where
  \<comment> \<open>the pattern \<open>#include\s+"(.*)"$\<close> at the head of the text: the length of the match
      and group 1. \<open>\s+\<close> takes the whole run of whitespace, line breaks included, since a
      quote must follow it; \<open>.*\<close> stays within the line, and the closing quote must be
      the last character of that line.\<close>
  "match_here s =
     (if startswith s INCLUDE then
        (let r = drop (length INCLUDE) s;
             ws = takeWhile py_isspace r
         in if ws = [] then None
            else
              (case dropWhile py_isspace r of
                 [] \<Rightarrow> None
               | q # r' \<Rightarrow>
                   (let l = takeWhile (\<lambda>c. c \<noteq> newline) r' in
                    if q = dquote \<and> l \<noteq> [] \<and> last l = dquote
                    then Some (length INCLUDE + length ws + 1 + length l, butlast l)
                    else None)))
      else None)"

fun search_from :: "nat \<Rightarrow> bool \<Rightarrow> pystr \<Rightarrow> (nat \<times> nat \<times> pystr) option" where
  \<comment> \<open>the scan of \<open>pattern.search\<close>: \<open>i\<close> is the position of the text in the document
      and \<open>bol\<close> says whether \<open>^\<close> matches there (\<open>re.MULTILINE\<close>)\<close>
  "search_from i bol [] = None"
| "search_from i bol (c # cs) =
     (case (if bol then match_here (c # cs) else None) of
        Some (n, g) \<Rightarrow> Some (i, i + n, g)
      | None \<Rightarrow> search_from (Suc i) (c = newline) cs)"

definition pattern_search :: "pystr \<Rightarrow> (nat \<times> nat \<times> pystr) option" where
  \<comment> \<open>\<open>pattern.search(file)\<close>: start, end and group 1 of the first match\<close>
  "pattern_search file = search_from 0 True file"

fun strip_include :: "pystr \<Rightarrow> pystr" where
  \<comment> \<open>\<open>file.replace('#include', "")\<close>\<close>
  "strip_include [] = []"
| "strip_include (c # cs) =
     (if startswith (c # cs) INCLUDE then strip_include (drop (length INCLUDE - 1) cs)
      else c # strip_include cs)"

definition os_path_join :: "pystr \<Rightarrow> pystr \<Rightarrow> pystr" where
  "os_path_join a b =
     (if startswith b [sep] then b
      else if a = [] \<or> endswith a [sep] then a @ b
      else a @ [sep] @ b)"

definition os_path_dirname :: "pystr \<Rightarrow> pystr" where
  "os_path_dirname p = fst (os_path_split p)"

fun do_include :: "nat \<Rightarrow> env \<Rightarrow> pystr \<Rightarrow> pystr \<Rightarrow> py_error + pystr" where
  \<comment> \<open>the first argument is the number of further nested calls the interpreter's
      recursion limit allows\<close>
  "do_include depth e file dirname =
     (case pattern_search file of
        None \<Rightarrow> Inr file
      | Some (start, end, path) \<Rightarrow>
          (let include_path = abspath e (os_path_join dirname path) in
           if \<not> path_exists e include_path
           then Inl (RuntimeError (IncludeMissing include_path))
           else
             (case read_text e include_path of
                Inl err \<Rightarrow> Inl err
              | Inr file_data \<Rightarrow>
                  (case depth of
                     0 \<Rightarrow> Inl RecursionError
                   | Suc d \<Rightarrow>
                       (case do_include d e file_data (os_path_dirname include_path) of
                          Inl err \<Rightarrow> Inl err
                        | Inr file_data \<Rightarrow>
                            (case do_include d e
                                    (take start file @ [newline] @ file_data @ [newline] @
                                     drop end file)
                                    dirname of
                               Inl err \<Rightarrow> Inl err
                             | Inr file \<Rightarrow> Inr (strip_include file)))))))"

declare do_include.simps [simp del]

definition directive_line :: "pystr \<Rightarrow> bool" where
  \<comment> \<open>a directive as the specification words it: a line made of the include marker and
      a quoted path, with any whitespace between the two\<close>
  "directive_line l \<longleftrightarrow>
     startswith l INCLUDE \<and>
     (let r = dropWhile py_isspace (drop (length INCLUDE) l)
      in length r \<ge> 2 \<and> hd r = dquote \<and> last r = dquote)"

definition has_directive_line :: "pystr \<Rightarrow> bool" where
  "has_directive_line file = list_ex directive_line (py_split newline file)"

section \<open>Sample surroundings\<close>

text \<open>
  Concrete surroundings, used where a statement is tried on an example: an environment
  with an empty table of error codes, one with a table of one line, one whose table
  cannot be opened, and a device that sends the given bytes, one for each read, a
  millisecond apart, and is silent afterwards.
\<close>

definition env_plain :: env where
  "env_plain = \<lparr>codes_csv = Inr [], eval_str = (\<lambda>s. Inl (EvalError s)),
     expanduser = (\<lambda>p. p), abspath = (\<lambda>p. p), path_exists = (\<lambda>p. False),
     read_text = (\<lambda>p. Inl (OSError p)), read_binary = (\<lambda>p. Inl (OSError p))\<rparr>"

definition env_codes :: env where
  "env_codes = env_plain\<lparr>codes_csv := Inr [str ''5902,'' @ quoted (str ''File not found'')],
     eval_str := (\<lambda>s. if s = str ''0x170E'' then Inr (str ''5902'') else Inl (EvalError s))\<rparr>"

definition env_no_codes :: env where
  "env_no_codes = env_plain\<lparr>codes_csv := Inl (OSError (str ''codes.csv''))\<rparr>"

definition incoming :: "bytes \<Rightarrow> world" where
  "incoming b = \<lparr>now = 0, line = map (\<lambda>c. (1, [c])) b, sent = [], stdout = []\<rparr>"

definition env_artifact :: env where
  "env_artifact = env_plain\<lparr>read_binary :=
     (\<lambda>p. if p = str ''/w/blink.uwc'' then Inr ''0123456789abcdefghij'' else Inl (OSError p))\<rparr>"

definition OK :: bytes where
  "OK = [CHR 0x0A, CHR ''0'', CHR ''0'', CHR 0x0D]"

definition HELLO :: bytes where
  \<comment> \<open>\<open>b"hello\r\n00\r"\<close>\<close>
  "HELLO = ''hello'' @ [CHR 0x0D, CHR 0x0A] @ SUCCESS"

definition reset_reply :: bytes where
  \<comment> \<open>bytes in the shape of an error reply\<close>
  "reset_reply = ERROR_PREFIX @ ''05'' @ [CHR 0x0D]"

definition world_format :: world where
  \<comment> \<open>a device that answers the clear command and both probes with success, and the
      factory reset with bytes in the shape of an error reply\<close>
  "world_format =
     \<lparr>now = 0,
      line = map (\<lambda>c. (1, [c])) (OK @ OK) @ [(100, reset_reply)] @ map (\<lambda>c. (1, [c])) OK,
      sent = [], stdout = []\<rparr>"

definition world_probe_error :: world where
  \<comment> \<open>a device that answers the clear command with success and the probe after it
      with an error reply\<close>
  "world_probe_error =
     \<lparr>now = 0, line = map (\<lambda>c. (1, [c])) (OK @ reset_reply), sent = [], stdout = []\<rparr>"

definition env_include :: env where
  \<comment> \<open>one file, \<open>d/foo\<close>, holding the text \<open>x\<close>\<close>
  "env_include = env_plain\<lparr>path_exists := (\<lambda>p. p = str ''d/foo''),
     read_text := (\<lambda>p. if p = str ''d/foo'' then Inr (str ''x'') else Inl (OSError p))\<rparr>"

definition split_directive :: pystr where
  \<comment> \<open>the marker on one line and the quoted path on the next\<close>
  "split_directive = str ''#include'' @ [newline] @ quoted (str ''foo'')"

section \<open>Properties of the device file names\<close>

lemma py_split_nonempty: "py_split s xs \<noteq> []"
  by (induction xs) (auto split: list.splits)

lemma hd_py_split: "hd (py_split s xs) = takeWhile (\<lambda>c. c \<noteq> s) xs"
  by (induction xs) (auto split: list.splits simp: py_split_nonempty)

lemma takeWhile_rev_absent:
  "c \<notin> set p \<Longrightarrow> rev (takeWhile (\<lambda>x. x \<noteq> c) (rev p)) = p"
  by (induction p) auto

lemma takeWhile_absent:
  "c \<notin> set p \<Longrightarrow> takeWhile (\<lambda>x. x \<noteq> c) p = p"
  by (induction p) auto

lemma drop_after_last:
  "drop (nat (rfind p c + 1)) p = rev (takeWhile (\<lambda>x. x \<noteq> c) (rev p))"
proof (cases "c \<in> set p")
  case False
  then show ?thesis by (simp add: rfind_def takeWhile_rev_absent)
next
  case True
  let ?t = "takeWhile (\<lambda>x. x \<noteq> c) (rev p)"
  have le: "length ?t \<le> length p"
    by (metis length_rev length_takeWhile_le)
  have "nat (rfind p c + 1) = length p - length ?t"
    using True le by (simp add: rfind_def)
  moreover have "drop (length p - length ?t) p = rev (take (length ?t) (rev p))"
    by (simp add: rev_take)
  moreover have "take (length ?t) (rev p) = ?t"
    by (metis takeWhile_eq_take)
  ultimately show ?thesis by simp
qed

lemma tail_def2: "snd (os_path_split p) = rev (takeWhile (\<lambda>x. x \<noteq> sep) (rev p))"
  by (simp add: os_path_split_def Let_def drop_after_last)

lemma tail_no_sep: "sep \<notin> set (snd (os_path_split p))"
  by (auto simp: tail_def2 dest: set_takeWhileD)

lemma get_devicename_eq:
  "get_devicename p = take 24 (filter (\<lambda>c. \<not> reserved c)
      (takeWhile (\<lambda>c. c \<noteq> extsep) (snd (os_path_split p))))"
  by (simp add: get_devicename_def Let_def hd_py_split re_sub_reserved_def)

lemma devicename_chars:
  assumes "c \<in> set (get_devicename p)"
  shows "c \<noteq> sep" "c \<noteq> extsep" "\<not> reserved c"
proof -
  from assms have f: "c \<in> set (filter (\<lambda>c. \<not> reserved c)
      (takeWhile (\<lambda>c. c \<noteq> extsep) (snd (os_path_split p))))"
    unfolding get_devicename_eq by (rule in_set_takeD)
  then show "\<not> reserved c" by simp
  from f have t: "c \<in> set (takeWhile (\<lambda>c. c \<noteq> extsep) (snd (os_path_split p)))" by simp
  then show "c \<noteq> extsep" by (auto dest: set_takeWhileD)
  from t have "c \<in> set (snd (os_path_split p))" by (auto dest: set_takeWhileD)
  then show "c \<noteq> sep" using tail_no_sep by metis
qed

lemma devicename_fixed:
  assumes "sep \<notin> set n" "extsep \<notin> set n" "\<forall>c\<in>set n. \<not> reserved c" "length n \<le> 24"
  shows "get_devicename n = n"
proof -
  have "snd (os_path_split n) = n"
    using assms(1) by (simp add: tail_def2 takeWhile_rev_absent)
  moreover have "takeWhile (\<lambda>c. c \<noteq> extsep) n = n"
    using assms(2) by (rule takeWhile_absent)
  moreover have "filter (\<lambda>c. \<not> reserved c) n = n"
    using assms(3) by (induction n) auto
  ultimately show ?thesis using assms(4) by (simp only: get_devicename_eq take_all)
qed

lemma devicename_length: "length (get_devicename p) \<le> 24"
  by (simp add: get_devicename_eq)

text \<open>
  Claim C6: whatever the path, the name \<open>get_devicename\<close> returns has at most 24
  characters and none of the reserved characters \<open>: * ? " < > |\<close>, and normalising it
  again gives the same name.
\<close>

theorem get_devicename_normal:
  "length (get_devicename p) \<le> 24 \<and>
   filter reserved (get_devicename p) = [] \<and>
   get_devicename (get_devicename p) = get_devicename p"
proof -
  have "filter reserved (get_devicename p) = []"
    using devicename_chars(3) [of _ p] by (simp add: filter_empty_conv)
  moreover have "get_devicename (get_devicename p) = get_devicename p"
    by (rule devicename_fixed)
       (use devicename_chars [of _ p] devicename_length [of p] in auto)
  ultimately show ?thesis using devicename_length by simp
qed

lemma rfind_absent: "c \<notin> set p \<Longrightarrow> rfind p c = - 1"
  by (simp add: rfind_def)

lemma length_takeWhile_present:
  "c \<in> set xs \<Longrightarrow> length (takeWhile (\<lambda>x. x \<noteq> c) xs) < length xs"
  by (induction xs) auto

lemma rfind_present:
  assumes "c \<in> set p"
  shows "0 \<le> rfind p c" "nat (rfind p c) < length p" "p ! nat (rfind p c) = c"
proof -
  let ?t = "takeWhile (\<lambda>x. x \<noteq> c) (rev p)"
  have lt: "length ?t < length (rev p)"
    using length_takeWhile_present [of c "rev p"] assms by simp
  then have lt': "length ?t < length p" by simp
  have r: "rfind p c = int (length p) - 1 - int (length ?t)"
    using assms by (simp add: rfind_def)
  show "0 \<le> rfind p c" using lt' r by simp
  have n: "nat (rfind p c) = length p - Suc (length ?t)" using lt' r by simp
  show "nat (rfind p c) < length p" using lt' n by simp
  have "\<not> (rev p ! length ?t \<noteq> c)" using lt by (rule nth_length_takeWhile)
  then have "rev p ! length ?t = c" by simp
  then show "p ! nat (rfind p c) = c" using lt' n by (simp add: rev_nth)
qed

lemma takeWhile_take_first:
  assumes "d < length b" "b ! d = c" "c \<notin> set (take d b)"
  shows "takeWhile (\<lambda>x. x \<noteq> c) b = take d b"
proof -
  have "b = take d b @ c # drop (Suc d) b"
    using assms(1,2) by (metis id_take_nth_drop)
  then have "takeWhile (\<lambda>x. x \<noteq> c) b = takeWhile (\<lambda>x. x \<noteq> c) (take d b @ c # drop (Suc d) b)"
    by simp
  also have "\<dots> = take d b"
    using assms(3) by (subst takeWhile_append2) auto
  finally show ?thesis .
qed

lemma splitext_stem:
  assumes "extsep \<notin> set (fst (os_path_splitext b))"
  shows "fst (os_path_splitext b) = takeWhile (\<lambda>c. c \<noteq> extsep) b"
proof (cases "extsep \<in> set b")
  case False
  then show ?thesis
    by (simp add: os_path_splitext_def Let_def rfind_absent takeWhile_absent)
next
  case True
  let ?d = "nat (rfind b extsep)"
  have "fst (os_path_splitext b) = take ?d b \<or> fst (os_path_splitext b) = b"
    by (simp add: os_path_splitext_def Let_def)
  with assms True have stem: "fst (os_path_splitext b) = take ?d b"
    by auto
  with assms have "extsep \<notin> set (take ?d b)" by simp
  then have "takeWhile (\<lambda>c. c \<noteq> extsep) b = take ?d b"
    using rfind_present(2,3) [OF True] by (intro takeWhile_take_first)
  with stem show ?thesis by simp
qed

text \<open>
  Claim C5, as amended: the name is the base name cut at its \<^emph>\<open>first\<close> dot, with the
  reserved characters removed and capped at 24 characters; it is the base name without
  its extension whenever what is left of the base name without its extension has no dot.
\<close>

theorem get_devicename_first_dot:
  "get_devicename p =
     take 24 (re_sub_reserved (takeWhile (\<lambda>c. c \<noteq> extsep) (snd (os_path_split p)))) \<and>
   (extsep \<notin> set (fst (os_path_splitext (snd (os_path_split p)))) \<longrightarrow>
      get_devicename p = devicename_spec p)"
  by (simp add: get_devicename_eq re_sub_reserved_def devicename_spec_def splitext_stem)

theorem get_devicename_first_dot_witness:
  "extsep \<notin> set (fst (os_path_splitext (snd (os_path_split (str ''/home/u/blink.uwc''))))) \<and>
   get_devicename (str ''/home/u/blink.uwc'') = str ''blink'' \<and>
   devicename_spec (str ''/home/u/blink.uwc'') = str ''blink''"
proof -
  have h: "extsep \<notin> set (fst (os_path_splitext (snd (os_path_split (str ''/home/u/blink.uwc'')))))"
    by code_simp
  have v: "devicename_spec (str ''/home/u/blink.uwc'') = str ''blink''"
    by code_simp
  from get_devicename_first_dot [of "str ''/home/u/blink.uwc''"] h
  have "get_devicename (str ''/home/u/blink.uwc'') = devicename_spec (str ''/home/u/blink.uwc'')"
    by blast
  with h v show ?thesis by simp
qed

text \<open>
  Claim C5 as stated fails for a base name with two dots: everything from the first dot
  on is dropped, not only the final extension.
\<close>

theorem get_devicename_extension_counterexample:
  "get_devicename (str ''/home/u/my.prog.uwc'') = str ''my'' \<and>
   devicename_spec (str ''/home/u/my.prog.uwc'') = str ''my.prog''"
  by code_simp

theorem get_devicename_normal_witness:
  "get_devicename (str ''dir/a:b*c.d.uwc'') = str ''abc'' \<and>
   get_devicename (str ''abc'') = str ''abc''"
proof -
  have v: "get_devicename (str ''dir/a:b*c.d.uwc'') = str ''abc''"
    by code_simp
  from get_devicename_normal [of "str ''dir/a:b*c.d.uwc''"] v show ?thesis
    by simp
qed

section \<open>Properties of the command writer\<close>

lemma utf8_ascii: "list_all (\<lambda>b. b < 128) bs \<Longrightarrow> utf8 bs = Some bs"
  by (induction bs) auto

lemma decode_utf8_ascii:
  "list_all (\<lambda>c. of_char c < (128 :: nat)) b \<Longrightarrow> decode_utf8 b = Inr (map of_char b)"
  by (simp add: decode_utf8_def utf8_ascii list_all_iff)

lemma now_port_write: "now (port_write b w) = now w"
  by (simp add: port_write_def)

lemma writecmd_expect:
  assumes "encode_ascii (command_text args) = Inr data"
    and "read_response (now w + timeout) (port_write data w) [] = (response, w')"
  shows "writecmd e args True timeout w =
           (response_result e (command_text args) args response, w')"
  using assms by (simp add: writecmd_def Let_def now_port_write)

lemma rev_split_while:
  "xs = rev (dropWhile P (rev xs)) @ rev (takeWhile P (rev xs))"
  by (metis rev_append rev_rev_ident takeWhile_dropWhile_id)

lemma py_strip_parts:
  "s = takeWhile py_isspace s @ py_strip s @
       rev (takeWhile py_isspace (rev (dropWhile py_isspace s)))"
proof -
  let ?d = "dropWhile py_isspace s"
  have "?d = py_strip s @ rev (takeWhile py_isspace (rev ?d))"
    unfolding py_strip_def by (rule rev_split_while)
  moreover have "s = takeWhile py_isspace s @ ?d" by simp
  ultimately show ?thesis by metis
qed

lemma py_strip_ends:
  assumes "py_strip s \<noteq> []"
  shows "\<not> py_isspace (hd (py_strip s))" "\<not> py_isspace (last (py_strip s))"
proof -
  let ?d = "dropWhile py_isspace s"
  let ?r = "dropWhile py_isspace (rev ?d)"
  from assms have r: "?r \<noteq> []" by (simp add: py_strip_def)
  then have "\<not> py_isspace (hd ?r)" by (rule hd_dropWhile)
  then show "\<not> py_isspace (last (py_strip s))"
    using r by (simp add: py_strip_def last_rev)
  have d: "?d \<noteq> []"
  proof
    assume a: "?d = []"
    have "?r = []" unfolding a by simp
    with r show False ..
  qed
  then have nd: "\<not> py_isspace (hd ?d)" by (rule hd_dropWhile)
  have "?d = rev ?r @ rev (takeWhile py_isspace (rev ?d))" by (rule rev_split_while)
  then have "hd ?d = hd (rev ?r)" using r by (metis hd_append2 rev_is_Nil_conv)
  with nd show "\<not> py_isspace (hd (py_strip s))" by (simp add: py_strip_def)
qed

lemmas eval_writecmd =
  writecmd_def command_text_def str_def startswith_def encode_ascii_def port_write_def
  read_response.simps endswith_def SUCCESS_def ERROR_PREFIX_def port_read_def port_timeout_def
  response_result_def decode_ascii_def decode_utf8_def get_errordesc_def
  py_strip_def py_isspace_def Let_def env_plain_def incoming_def

text \<open>
  Claim C1, as amended: when the bytes read end with the success terminator \<open>00\<close> +
  carriage return and are all ASCII, \<open>writecmd\<close> returns normally, and its payload is
  the text before the three terminator bytes with the whitespace around it removed: the
  text is whitespace, then the payload, then whitespace, and the payload neither begins
  nor ends with whitespace.
\<close>

theorem writecmd_success:
  assumes "encode_ascii (command_text args) = Inr data"
    and "read_response (now w + timeout) (port_write data w) [] = (response, w')"
    and "endswith response SUCCESS"
    and "list_all (\<lambda>c. of_char c < (128 :: nat)) response"
  shows "let s = map of_char (take (length response - 3) response);
             payload = py_strip s
         in writecmd e args True timeout w = (Inr (Some payload), w') \<and>
            s = takeWhile py_isspace s @ payload @
                rev (takeWhile py_isspace (rev (dropWhile py_isspace s))) \<and>
            (payload = [] \<or> \<not> py_isspace (hd payload) \<and> \<not> py_isspace (last payload))"
proof -
  let ?s = "map of_char (take (length response - 3) response) :: pystr"
  have "response_result e (command_text args) args response = Inr (Some (py_strip ?s))"
    using assms(3,4) by (simp add: response_result_def decode_ascii_def take_map)
  then have "writecmd e args True timeout w = (Inr (Some (py_strip ?s)), w')"
    using writecmd_expect [OF assms(1,2)] by simp
  moreover have "?s = takeWhile py_isspace ?s @ py_strip ?s @
      rev (takeWhile py_isspace (rev (dropWhile py_isspace ?s)))"
    by (rule py_strip_parts)
  moreover have "py_strip ?s = [] \<or>
      \<not> py_isspace (hd (py_strip ?s)) \<and> \<not> py_isspace (last (py_strip ?s))"
    using py_strip_ends [of ?s] by blast
  ultimately show ?thesis unfolding Let_def by blast
qed

theorem writecmd_success_witness:
  "fst (writecmd env_plain (str ''+DIR'') True 500
         (incoming ([CHR 0x0A] @ ''6 blink'' @ [CHR 0x0D, CHR 0x0A] @ SUCCESS))) =
   Inr (Some (str ''6 blink''))"
proof -
  let ?r = "[CHR 0x0A] @ ''6 blink'' @ [CHR 0x0D, CHR 0x0A] @ SUCCESS"
  let ?w = "incoming ?r"
  let ?data = "map char_of (command_text (str ''+DIR''))"
  let ?w' = "snd (read_response (now ?w + 500) (port_write ?data ?w) [])"
  have h1: "encode_ascii (command_text (str ''+DIR'')) = Inr ?data"
    by (simp add: eval_writecmd)
  have h2: "read_response (now ?w + 500) (port_write ?data ?w) [] = (?r, ?w')"
    by (simp add: eval_writecmd)
  have h3: "endswith ?r SUCCESS"
    by (simp add: eval_writecmd)
  have h4: "list_all (\<lambda>c. of_char c < (128 :: nat)) ?r"
    by (simp add: eval_writecmd)
  have v: "py_strip (map of_char (take (length ?r - 3) ?r)) = str ''6 blink''"
    by (simp add: eval_writecmd)
  from writecmd_success [OF h1 h2 h3 h4, of env_plain] v show ?thesis
    by (simp add: Let_def)
qed

text \<open>
  Claim C1 as stated covers every byte sequence; a byte above 127 before the terminator
  makes the \<open>ascii\<close> decoding raise, and \<open>writecmd\<close> returns no payload.
\<close>

theorem writecmd_success_counterexample:
  "endswith ([CHR 0xFF] @ SUCCESS) SUCCESS \<and>
   fst (read_response 500 (incoming ([CHR 0xFF] @ SUCCESS)) []) = [CHR 0xFF] @ SUCCESS \<and>
   fst (writecmd env_plain (str ''+DIR'') True 500 (incoming ([CHR 0xFF] @ SUCCESS))) =
     Inl UnicodeDecodeError"
  by (simp add: eval_writecmd)

text \<open>
  Claim C2, as amended: for a response longer than 4 bytes that begins with the error
  prefix and does not end with the success terminator, whose bytes after the prefix
  decode as UTF-8 and whose code \<open>get_errordesc\<close> resolves, \<open>writecmd\<close> raises the
  device error with the code: the decoded text after the prefix without its last
  character, which for an ASCII response is the text strictly between the prefix and the
  final byte.
\<close>

theorem writecmd_device_error:
  assumes "encode_ascii (command_text args) = Inr data"
    and "read_response (now w + timeout) (port_write data w) [] = (response, w')"
    and "length response > 4"
    and "take 4 response = ERROR_PREFIX"
    and "\<not> endswith response SUCCESS"
    and "decode_utf8 (drop 4 response) = Inr t"
    and "get_errordesc e (butlast t) = Inr desc"
  shows "writecmd e args True timeout w =
           (Inl (RuntimeError (DeviceError (butlast t) desc)), w') \<and>
         (list_all (\<lambda>c. of_char c < (128 :: nat)) response \<longrightarrow>
            butlast t = map of_char (take (length response - 5) (drop 4 response)))"
proof -
  have "response_result e (command_text args) args response =
          Inl (RuntimeError (DeviceError (butlast t) desc))"
    using assms(3-7) by (auto simp: response_result_def Let_def)
  then have "writecmd e args True timeout w =
           (Inl (RuntimeError (DeviceError (butlast t) desc)), w')"
    using writecmd_expect [OF assms(1,2)] by simp
  moreover have "butlast t = map of_char (take (length response - 5) (drop 4 response))"
    if a: "list_all (\<lambda>c. of_char c < (128 :: nat)) response"
  proof -
    from a have "list_all (\<lambda>c. of_char c < (128 :: nat)) (drop 4 response)"
      by (auto simp: list_all_iff dest: in_set_dropD)
    then have "decode_utf8 (drop 4 response) = Inr (map of_char (drop 4 response))"
      by (rule decode_utf8_ascii)
    with assms(6) have "t = map of_char (drop 4 response)" by simp
    then show ?thesis by (simp add: butlast_conv_take map_butlast [symmetric] take_map)
  qed
  ultimately show ?thesis by blast
qed

text \<open>
  Claim C10, as amended: once the bytes read end with the success terminator the loop
  reads nothing more, and the response is never reported as a device error, whatever it
  begins with; it is a success when its bytes are all ASCII.
\<close>

theorem success_terminator_first:
  assumes "endswith response SUCCESS"
  shows "read_response deadline w response = (response, w) \<and>
         (\<forall>code desc. response_result e command args response \<noteq>
                        Inl (RuntimeError (DeviceError code desc))) \<and>
         (list_all (\<lambda>c. of_char c < (128 :: nat)) response \<longrightarrow>
            response_result e command args response =
              Inr (Some (py_strip (map of_char (take (length response - 3) response)))))"
  using assms
  by (simp add: read_response.simps response_result_def decode_ascii_def take_map)


lemmas eval_errordesc =
  env_codes_def env_no_codes_def quoted_def dquote_def contains.simps

theorem writecmd_device_error_witness:
  "fst (writecmd env_codes (str ''+DEL '' @ quoted (str ''blink'')) True 500
         (incoming (ERROR_PREFIX @ ''170E'' @ [CHR 0x0D]))) =
   Inl (RuntimeError (DeviceError (str ''170E'') (str ''File not found'')))"
proof -
  let ?args = "str ''+DEL '' @ quoted (str ''blink'')"
  let ?r = "ERROR_PREFIX @ ''170E'' @ [CHR 0x0D]"
  let ?w = "incoming ?r"
  let ?data = "map char_of (command_text ?args)"
  let ?w' = "snd (read_response (now ?w + 500) (port_write ?data ?w) [])"
  have h1: "encode_ascii (command_text ?args) = Inr ?data"
    by (simp add: eval_writecmd eval_errordesc)
  have h2: "read_response (now ?w + 500) (port_write ?data ?w) [] = (?r, ?w')"
    by (simp add: eval_writecmd)
  have h3: "length ?r > 4" "take 4 ?r = ERROR_PREFIX" "\<not> endswith ?r SUCCESS"
    by (simp_all add: eval_writecmd)
  have h4: "decode_utf8 (drop 4 ?r) = Inr (str ''170E'' @ [13])"
    by (simp add: eval_writecmd)
  have h5: "get_errordesc env_codes (butlast (str ''170E'' @ [13])) = Inr (str ''File not found'')"
    by (simp add: eval_writecmd eval_errordesc)
  from writecmd_device_error [OF h1 h2 h3 h4 h5] show ?thesis
    by (simp add: butlast_append)
qed

text \<open>
  Claim C2 as stated fails where the bytes after the prefix are not UTF-8, and where the
  table of error codes cannot be opened: another exception leaves \<open>writecmd\<close>.
\<close>

theorem writecmd_device_error_counterexample:
  "length (ERROR_PREFIX @ [CHR 0xFF, CHR 0x0D]) > 4 \<and>
   take 4 (ERROR_PREFIX @ [CHR 0xFF, CHR 0x0D]) = ERROR_PREFIX \<and>
   \<not> endswith (ERROR_PREFIX @ [CHR 0xFF, CHR 0x0D]) SUCCESS \<and>
   fst (read_response 500 (incoming (ERROR_PREFIX @ [CHR 0xFF, CHR 0x0D])) []) =
     ERROR_PREFIX @ [CHR 0xFF, CHR 0x0D] \<and>
   fst (writecmd env_codes (str ''+DIR'') True 500
         (incoming (ERROR_PREFIX @ [CHR 0xFF, CHR 0x0D]))) = Inl UnicodeDecodeError \<and>
   fst (writecmd env_no_codes (str ''+DIR'') True 500
         (incoming (ERROR_PREFIX @ ''170E'' @ [CHR 0x0D]))) = Inl (OSError (str ''codes.csv''))"
  by (simp add: eval_writecmd eval_errordesc)

theorem success_terminator_first_witness:
  "read_response 500 (incoming []) (ERROR_PREFIX @ ''12'' @ SUCCESS) =
     (ERROR_PREFIX @ ''12'' @ SUCCESS, incoming []) \<and>
   response_result env_codes (command_text (str ''+DIR'')) (str ''+DIR'')
     (ERROR_PREFIX @ ''12'' @ SUCCESS) = Inr (Some (str ''01'' @ [9] @ str ''12''))"
proof -
  let ?r = "ERROR_PREFIX @ ''12'' @ SUCCESS"
  have h: "endswith ?r SUCCESS"
    by (simp add: eval_writecmd)
  have a: "list_all (\<lambda>c. of_char c < (128 :: nat)) ?r"
    by (simp add: eval_writecmd)
  have v: "py_strip (map of_char (take (length ?r - 3) ?r)) = str ''01'' @ [9] @ str ''12''"
    by (simp add: eval_writecmd)
  from success_terminator_first [OF h, of 500 "incoming []" env_codes
      "command_text (str ''+DIR'')" "str ''+DIR''"] a v
  show ?thesis by simp
qed

text \<open>
  Claim C10 as stated makes every such response a success; with a byte above 127 between
  the error prefix and the terminator the \<open>ascii\<close> decoding raises instead.
\<close>

theorem success_terminator_first_counterexample:
  "endswith (ERROR_PREFIX @ [CHR 0xFF] @ SUCCESS) SUCCESS \<and>
   fst (read_response 500 (incoming (ERROR_PREFIX @ [CHR 0xFF] @ SUCCESS)) []) =
     ERROR_PREFIX @ [CHR 0xFF] @ SUCCESS \<and>
   fst (writecmd env_codes (str ''+DIR'') True 500
         (incoming (ERROR_PREFIX @ [CHR 0xFF] @ SUCCESS))) = Inl UnicodeDecodeError"
  by (simp add: eval_writecmd)

section \<open>Properties of the upload\<close>

lemma port_read_keeps: "sent (snd (port_read n w)) = sent w" "stdout (snd (port_read n w)) = stdout w"
  by (simp_all add: port_read_def split: list.splits prod.splits)

lemma read_response_keeps:
  "sent (snd (read_response d w r)) = sent w \<and> stdout (snd (read_response d w r)) = stdout w"
proof (induction d w r rule: read_response.induct)
  case (1 d w r)
  show ?case
  proof (cases "\<not> endswith r SUCCESS \<and> now w < d")
    case True
    with 1 show ?thesis
      by (subst (1 2) read_response.simps) (simp add: port_read_keeps)
  next
    case False
    then show ?thesis
      by (subst (1 2) read_response.simps) auto
  qed
qed

lemma writecmd_sent:
  assumes "writecmd e args x t w = (Inr v, w')"
  shows "sent w' = sent w @ [frame args]" "stdout w' = stdout w"
proof -
  from assms have enc: "encode_ascii (command_text args) = Inr (frame args)"
    by (auto simp: writecmd_def encode_ascii_def frame_def Let_def split: if_splits)
  let ?w1 = "port_write (frame args) w"
  have w': "w' = (if x then snd (read_response (now ?w1 + t) ?w1 []) else ?w1)"
    using assms enc by (auto simp: writecmd_def Let_def split: prod.splits if_splits)
  show "sent w' = sent w @ [frame args]"
    unfolding w' by (simp add: read_response_keeps) (simp add: port_write_def)
  show "stdout w' = stdout w"
    unfolding w' by (simp add: read_response_keeps) (simp add: port_write_def)
qed

lemma write_rows_sent:
  "write_rows e ls w = (Inr u, w') \<Longrightarrow>
   sent w' = sent w @ map (\<lambda>l. frame (str ''+FWRH '' @ quoted (concat (map hex2 l)))) ls \<and>
   stdout w' = stdout w"
proof (induction ls arbitrary: w)
  case Nil
  then show ?case by simp
next
  case (Cons l ls)
  from Cons.prems obtain v w1 where
    c: "writecmd e (str ''+FWRH '' @ quoted (concat (map hex2 l))) True 500 w = (Inr v, w1)"
    and r: "write_rows e ls w1 = (Inr u, w')"
    by (auto simp: Let_def split: prod.splits sum.splits)
  from writecmd_sent [OF c] Cons.IH [OF r] show ?case by simp
qed

lemma concat_chunks: "0 < n \<Longrightarrow> concat (chunks f n) = f"
proof (induction f n rule: chunks.induct)
  case (1 f n)
  show ?case
  proof (cases "f = []")
    case True
    then show ?thesis by (subst chunks.simps) simp
  next
    case False
    with 1 show ?thesis by (subst chunks.simps) simp
  qed
qed

lemma chunk_count_step:
  "0 < n \<Longrightarrow> Suc ((n - 16 + 15) div 16) = (n + 15) div (16 :: nat)"
proof (cases "n < 16")
  case True
  assume "0 < n"
  with True show ?thesis by simp
next
  case False
  then obtain k where "n = k + 16"
    by (metis add.commute le_Suc_ex not_less)
  then show ?thesis by simp
qed

lemma length_chunks: "length (chunks f 16) = (length f + 15) div 16"
proof (induction f "16 :: nat" rule: chunks.induct)
  case (1 f)
  show ?case
  proof (cases "f = []")
    case True
    then show ?thesis by (subst chunks.simps) simp
  next
    case False
    then have "length (chunks f 16) = Suc (length (chunks (drop 16 f) 16))"
      by (subst chunks.simps) simp
    also have "\<dots> = Suc ((length f - 16 + 15) div 16)"
      using 1 False by simp
    also have "\<dots> = (length f + 15) div 16"
      using False by (intro chunk_count_step) simp
    finally show ?thesis .
  qed
qed

lemma chunks_sizes:
  "list_all (\<lambda>l. 0 < length l \<and> length l \<le> n) (chunks f n)"
proof (induction f n rule: chunks.induct)
  case (1 f n)
  then show ?case by (subst chunks.simps) auto
qed

lemma length_hex: "length (concat (map hex2 l)) = 2 * length l"
  by (induction l) (auto simp: hex2_def)

lemma chunks_empty: "chunks [] n = []"
  by (subst chunks.simps) simp

lemma and_then_Inr:
  "and_then r g = (Inr u, w') \<Longrightarrow> \<exists>x w1. r = (Inr x, w1) \<and> g x w1 = (Inr u, w')"
  by (auto simp: and_then_def split: prod.splits sum.splits)

lemma upload_sent_ok:
  assumes "upload e filepath w = (Inr u, w')"
    and "read_binary e (uwc_path e filepath) = Inr f"
  shows "sent w' = sent w @ upload_sequence (get_devicename (uwc_path e filepath)) f"
proof -
  let ?path = "uwc_path e filepath"
  let ?name = "get_devicename ?path"
  let ?w0 = "print (str ''Uploading '' @ ?path @ str '' as '' @ ?name) w"
  from assms(1) have
    "and_then (writecmd e (str ''+DEL '' @ quoted ?name @ str '' +'') True 500 ?w0) (\<lambda>_ w.
     and_then (writecmd e (str ''+FOW '' @ quoted ?name) True 500 w) (\<lambda>_ w.
     and_then (write_rows e (chunks f 16) w) (\<lambda>_ w.
     and_then (writecmd e (str ''+FCL'') True 500 w) (\<lambda>_ w.
     (Inr (), print (str ''Upload success'') w))))) = (Inr u, w')"
    by (simp add: upload_def Let_def assms(2)) (simp add: and_then_def)
  then obtain v1 w1 v2 w2 v3 w3 v4 w4 where
    c1: "writecmd e (str ''+DEL '' @ quoted ?name @ str '' +'') True 500 ?w0 = (Inr v1, w1)" and
    c2: "writecmd e (str ''+FOW '' @ quoted ?name) True 500 w1 = (Inr v2, w2)" and
    c3: "write_rows e (chunks f 16) w2 = (Inr v3, w3)" and
    c4: "writecmd e (str ''+FCL'') True 500 w3 = (Inr v4, w4)" and
    c5: "w' = print (str ''Upload success'') w4"
    by (fastforce dest!: and_then_Inr)
  show ?thesis
    using writecmd_sent(1) [OF c1] writecmd_sent(1) [OF c2] write_rows_sent [OF c3]
      writecmd_sent(1) [OF c4] c5
    by (simp add: upload_sequence_def print_def)
qed

lemma writecmd_sent_any:
  "prefix (sent w) (sent (snd (writecmd e a x t w))) \<and>
   prefix (sent (snd (writecmd e a x t w))) (sent w @ [frame a])"
proof (cases "encode_ascii (command_text a)")
  case (Inl err)
  then show ?thesis by (simp add: writecmd_def Let_def)
next
  case (Inr data)
  then have d: "data = frame a"
    by (auto simp: encode_ascii_def frame_def split: if_splits)
  let ?w1 = "port_write (frame a) w"
  have "snd (writecmd e a x t w) =
      (if x then snd (read_response (now ?w1 + t) ?w1 []) else ?w1)"
    using Inr d by (auto simp: writecmd_def Let_def split: prod.splits)
  then have "sent (snd (writecmd e a x t w)) = sent w @ [frame a]"
    by (simp add: read_response_keeps) (simp add: port_write_def)
  then show ?thesis by simp
qed

lemma write_rows_Inl:
  "writecmd e (str ''+FWRH '' @ quoted (concat (map hex2 l))) True 500 w = (Inl err, w1) \<Longrightarrow>
   write_rows e (l # ls) w = (Inl err, w1)"
  by (simp add: Let_def)

lemma write_rows_Inr:
  "writecmd e (str ''+FWRH '' @ quoted (concat (map hex2 l))) True 500 w = (Inr v, w1) \<Longrightarrow>
   write_rows e (l # ls) w = write_rows e ls w1"
  by (simp add: Let_def)

lemma write_rows_sent_any:
  "prefix (sent w) (sent (snd (write_rows e ls w))) \<and>
   prefix (sent (snd (write_rows e ls w)))
     (sent w @ map (\<lambda>l. frame (str ''+FWRH '' @ quoted (concat (map hex2 l)))) ls)"
proof (induction ls arbitrary: w)
  case Nil
  then show ?case by simp
next
  case (Cons l ls)
  let ?a = "str ''+FWRH '' @ quoted (concat (map hex2 l))"
  let ?F = "\<lambda>l. frame (str ''+FWRH '' @ quoted (concat (map hex2 l)))"
  obtain r w1 where c: "writecmd e ?a True 500 w = (r, w1)"
    by (cases "writecmd e ?a True 500 w")
  show ?case
  proof (cases r)
    case (Inl err)
    with c have "write_rows e (l # ls) w = (Inl err, w1)" by (simp only: write_rows_Inl)
    then have u: "snd (write_rows e (l # ls) w) = w1" by simp
    from writecmd_sent_any [of w e ?a True 500] c
    have p1: "prefix (sent w) (sent w1)" and p2: "prefix (sent w1) (sent w @ [?F l])"
      by simp_all
    have "prefix (sent w @ [?F l]) (sent w @ map ?F (l # ls))" by simp
    with p2 have "prefix (sent w1) (sent w @ map ?F (l # ls))"
      by (rule prefix_order.trans)
    with p1 show ?thesis unfolding u by simp
  next
    case (Inr v)
    with c have c': "writecmd e ?a True 500 w = (Inr v, w1)" by simp
    then have r: "write_rows e (l # ls) w = write_rows e ls w1" by (rule write_rows_Inr)
    from c' have s: "sent w1 = sent w @ [?F l]" by (rule writecmd_sent(1))
    from Cons.IH [of w1]
    have q1: "prefix (sent w1) (sent (snd (write_rows e ls w1)))"
      and q2: "prefix (sent (snd (write_rows e ls w1))) (sent w1 @ map ?F ls)"
      by simp_all
    have "prefix (sent w) (sent w1)" unfolding s by simp
    then have "prefix (sent w) (sent (snd (write_rows e ls w1)))"
      using q1 by (rule prefix_order.trans)
    moreover have "sent w1 @ map ?F ls = sent w @ map ?F (l # ls)" unfolding s by simp
    ultimately show ?thesis using q2 unfolding r by simp
  qed
qed

lemma upload_sent_any:
  assumes f: "read_binary e (uwc_path e filepath) = Inr f"
  shows "prefix (sent w) (sent (snd (upload e filepath w))) \<and>
         prefix (sent (snd (upload e filepath w)))
           (sent w @ upload_sequence (get_devicename (uwc_path e filepath)) f)"
proof -
  let ?path = "uwc_path e filepath"
  let ?name = "get_devicename ?path"
  let ?D = "str ''+DEL '' @ quoted ?name @ str '' +''"
  let ?O = "str ''+FOW '' @ quoted ?name"
  let ?C = "str ''+FCL''"
  let ?F = "\<lambda>l. frame (str ''+FWRH '' @ quoted (concat (map hex2 l)))"
  let ?S = "upload_sequence ?name f"
  let ?w0 = "print (str ''Uploading '' @ ?path @ str '' as '' @ ?name) w"
  have S: "?S = [frame ?D, frame ?O] @ map ?F (chunks f 16) @ [frame ?C]"
    by (simp add: upload_sequence_def)
  have w0: "sent ?w0 = sent w" by (simp add: print_def)
  obtain r1 w1 where c1: "writecmd e ?D True 500 ?w0 = (r1, w1)"
    by (cases "writecmd e ?D True 500 ?w0")
  from writecmd_sent_any [of ?w0 e ?D True 500] c1 w0
  have a1: "prefix (sent w) (sent w1)" "prefix (sent w1) (sent w @ [frame ?D])"
    by simp_all
  show ?thesis
  proof (cases r1)
    case (Inl err)
    with c1 have "upload e filepath w = (Inl err, w1)"
      by (simp add: upload_def Let_def and_then_def)
    moreover have "prefix (sent w @ [frame ?D]) (sent w @ ?S)" unfolding S by simp
    with a1(2) have "prefix (sent w1) (sent w @ ?S)" by (rule prefix_order.trans)
    ultimately show ?thesis using a1(1) by simp
  next
    case r1: (Inr v1)
    with c1 have s1: "sent w1 = sent w @ [frame ?D]" using w0 by (simp add: writecmd_sent)
    obtain r2 w2 where c2: "writecmd e ?O True 500 w1 = (r2, w2)"
      by (cases "writecmd e ?O True 500 w1")
    from writecmd_sent_any [of w1 e ?O True 500] c2
    have a2: "prefix (sent w1) (sent w2)" "prefix (sent w2) (sent w1 @ [frame ?O])"
      by simp_all
    from a1(1) a2(1) have b2: "prefix (sent w) (sent w2)" by (rule prefix_order.trans)
    show ?thesis
    proof (cases r2)
      case (Inl err)
      with c1 r1 c2 have "upload e filepath w = (Inl err, w2)"
        by (simp add: upload_def Let_def and_then_def)
      moreover have "prefix (sent w1 @ [frame ?O]) (sent w @ ?S)" unfolding S s1 by simp
      with a2(2) have "prefix (sent w2) (sent w @ ?S)" by (rule prefix_order.trans)
      ultimately show ?thesis using b2 by simp
    next
      case r2: (Inr v2)
      with c2 have s2: "sent w2 = sent w @ [frame ?D, frame ?O]"
        using s1 by (simp add: writecmd_sent)
      obtain r3 w3 where c3: "write_rows e (chunks f 16) w2 = (r3, w3)"
        by (cases "write_rows e (chunks f 16) w2")
      from write_rows_sent_any [of w2 e "chunks f 16"] c3
      have a3: "prefix (sent w2) (sent w3)"
        "prefix (sent w3) (sent w2 @ map ?F (chunks f 16))"
        by simp_all
      from b2 a3(1) have b3: "prefix (sent w) (sent w3)" by (rule prefix_order.trans)
      show ?thesis
      proof (cases r3)
        case (Inl err)
        with c1 r1 c2 r2 c3 f have "upload e filepath w = (Inl err, w3)"
          by (simp add: upload_def Let_def and_then_def)
        moreover have "prefix (sent w2 @ map ?F (chunks f 16)) (sent w @ ?S)"
          unfolding S s2 by simp
        with a3(2) have "prefix (sent w3) (sent w @ ?S)" by (rule prefix_order.trans)
        ultimately show ?thesis using b3 by simp
      next
        case r3: (Inr v3)
        with c3 have s3: "sent w3 = sent w @ [frame ?D, frame ?O] @ map ?F (chunks f 16)"
          using s2 write_rows_sent [of e "chunks f 16" w2 v3 w3] by simp
        obtain r4 w4 where c4: "writecmd e ?C True 500 w3 = (r4, w4)"
          by (cases "writecmd e ?C True 500 w3")
        from writecmd_sent_any [of w3 e ?C True 500] c4
        have a4: "prefix (sent w3) (sent w4)" "prefix (sent w4) (sent w3 @ [frame ?C])"
          by simp_all
        from b3 a4(1) have b4: "prefix (sent w) (sent w4)" by (rule prefix_order.trans)
        have e4: "sent w3 @ [frame ?C] = sent w @ ?S" unfolding S s3 by simp
        show ?thesis
        proof (cases r4)
          case (Inl err)
          with c1 r1 c2 r2 c3 r3 c4 f have "upload e filepath w = (Inl err, w4)"
            by (simp add: upload_def Let_def and_then_def)
          then show ?thesis using b4 a4(2) e4 by simp
        next
          case (Inr v4)
          with c1 r1 c2 r2 c3 r3 c4 f
          have "upload e filepath w = (Inr (), print (str ''Upload success'') w4)"
            by (simp add: upload_def Let_def and_then_def)
          then show ?thesis using b4 a4(2) e4 by (simp add: print_def)
        qed
      qed
    qed
  qed
qed

lemmas eval_upload =
  upload_def uwc_path_def os_path_splitext_def rfind_def sep_def extsep_def get_devicename_eq
  os_path_split_def reserved_def quoted_def dquote_def and_then_def print_def chunks.simps
  hex2_def hexdigit_def env_artifact_def OK_def

text \<open>
  Claim C3: for an artifact of \<open>N\<close> bytes, the commands of an upload are, in this
  order, one delete, one create, one write for each chunk, one close. Whatever the device
  answers, what \<open>upload\<close> writes to the port is an initial part of that sequence, and
  the whole of it when \<open>upload\<close> returns normally. The chunks are the consecutive
  pieces of the file, \<open>ceil(N/16)\<close> of them, each of 1 to 16 bytes and written as twice
  as many hex digits; an empty file gives delete, create and close alone.
\<close>

theorem upload_commands:
  assumes "read_binary e (uwc_path e filepath) = Inr f"
  shows "let name = get_devicename (uwc_path e filepath);
             r = upload e filepath w
         in prefix (sent w) (sent (snd r)) \<and>
            prefix (sent (snd r)) (sent w @ upload_sequence name f) \<and>
            (fst r = Inr () \<longrightarrow> sent (snd r) = sent w @ upload_sequence name f) \<and>
            length (upload_sequence name f) = 3 + (length f + 15) div 16 \<and>
            length (chunks f 16) = (length f + 15) div 16 \<and>
            concat (chunks f 16) = f \<and>
            list_all (\<lambda>l. 0 < length l \<and> length l \<le> 16 \<and>
                          length (concat (map hex2 l)) = 2 * length l) (chunks f 16) \<and>
            (f = [] \<longrightarrow>
               upload_sequence name f =
                 [frame (str ''+DEL '' @ quoted name @ str '' +''),
                  frame (str ''+FOW '' @ quoted name),
                  frame (str ''+FCL'')])"
proof -
  let ?name = "get_devicename (uwc_path e filepath)"
  let ?r = "upload e filepath w"
  have "sent (snd ?r) = sent w @ upload_sequence ?name f" if "fst ?r = Inr ()"
  proof -
    from that have "?r = (Inr (), snd ?r)" by (simp add: prod_eq_iff)
    then show ?thesis using assms by (rule upload_sent_ok)
  qed
  moreover have "length (upload_sequence ?name f) = 3 + (length f + 15) div 16"
    by (simp add: upload_sequence_def length_chunks)
  moreover have "list_all (\<lambda>l. 0 < length l \<and> length l \<le> 16 \<and>
                        length (concat (map hex2 l)) = 2 * length l) (chunks f 16)"
    using chunks_sizes [of 16 f] by (simp add: length_hex list_all_iff)
  moreover have "upload_sequence ?name [] =
       [frame (str ''+DEL '' @ quoted ?name @ str '' +''),
        frame (str ''+FOW '' @ quoted ?name), frame (str ''+FCL'')]"
    by (simp add: upload_sequence_def chunks_empty)
  ultimately show ?thesis
    using upload_sent_any [OF assms, of w] length_chunks [of f] concat_chunks [of 16 f]
    unfolding Let_def by auto
qed

theorem upload_commands_witness:
  "fst (upload env_artifact (str ''/w/blink.sb'') (incoming (OK @ OK @ OK @ OK @ OK))) = Inr () \<and>
   sent (snd (upload env_artifact (str ''/w/blink.sb'')
                (incoming (OK @ OK @ OK @ OK @ OK)))) =
     [frame (str ''+DEL '' @ quoted (str ''blink'') @ str '' +''),
      frame (str ''+FOW '' @ quoted (str ''blink'')),
      frame (str ''+FWRH '' @ quoted (str ''30313233343536373839616263646566'')),
      frame (str ''+FWRH '' @ quoted (str ''6768696a'')),
      frame (str ''+FCL'')]"
proof -
  let ?w = "incoming (OK @ OK @ OK @ OK @ OK)"
  let ?u = "upload env_artifact (str ''/w/blink.sb'') ?w"
  have h1: "fst ?u = Inr ()"
    by (simp add: eval_upload eval_writecmd)
  have p: "uwc_path env_artifact (str ''/w/blink.sb'') = str ''/w/blink.uwc''"
    by (simp add: eval_upload eval_writecmd)
  have h2: "read_binary env_artifact (uwc_path env_artifact (str ''/w/blink.sb'')) =
      Inr ''0123456789abcdefghij''"
    unfolding p by (simp add: env_artifact_def env_plain_def str_def)
  have n: "get_devicename (str ''/w/blink.uwc'') = str ''blink''"
    by (simp add: eval_upload eval_writecmd)
  have s: "upload_sequence (str ''blink'') ''0123456789abcdefghij'' =
     [frame (str ''+DEL '' @ quoted (str ''blink'') @ str '' +''),
      frame (str ''+FOW '' @ quoted (str ''blink'')),
      frame (str ''+FWRH '' @ quoted (str ''30313233343536373839616263646566'')),
      frame (str ''+FWRH '' @ quoted (str ''6768696a'')),
      frame (str ''+FCL'')]"
    by (simp add: upload_sequence_def chunks.simps hex2_def hexdigit_def str_def)
  have "sent ?w = []" by (simp add: incoming_def)
  with upload_commands [OF h2, of ?w] h1 show ?thesis
    unfolding p n s Let_def by simp
qed

section \<open>Properties of run and format\<close>

lemma run_unfold:
  assumes "writecmd e [] True 500 w = (Inr v, w1)"
    and "encode_ascii (command_text (str ''+RUN '' @ quoted (get_devicename filepath))) = Inr data"
  shows "run e filepath w =
           run_report e
             (fst (port_read 1024 (port_write data
                (print (str ''Running '' @ get_devicename filepath @ str ''...'') w1))))
             (snd (port_read 1024 (port_write data
                (print (str ''Running '' @ get_devicename filepath @ str ''...'') w1))))"
  using assms
  by (simp add: run_def Let_def and_then_def writecmd_def split: prod.splits)

lemma stdout_after_run_command:
  assumes "writecmd e [] True 500 w = (Inr v, w1)"
  shows "stdout (snd (port_read 1024 (port_write data (print s w1)))) = stdout w @ [s]"
  using writecmd_sent(2) [OF assms]
  by (simp add: port_read_keeps) (simp add: port_write_def print_def)

text \<open>
  Claim C7: when the probe has succeeded, the run command has been written and the
  direct read returns exactly \<open>hello\r\n00\r\<close>, \<open>run\<close> returns normally and prints,
  after its \<open>Running ...\<close> line, the program output \<open>hello\r\n\<close> under the heading
  \<open>Output:\<close> and then the success message.
\<close>

theorem run_hello:
  assumes "writecmd e [] True 500 w = (Inr v, w1)"
    and "encode_ascii (command_text (str ''+RUN '' @ quoted (get_devicename filepath))) = Inr data"
    and "fst (port_read 1024 (port_write data
           (print (str ''Running '' @ get_devicename filepath @ str ''...'') w1))) = HELLO"
  shows "fst (run e filepath w) = Inr () \<and>
         stdout (snd (run e filepath w)) =
           stdout w @
           [str ''Running '' @ get_devicename filepath @ str ''...'',
            str ''Output:'' @ [10] @ str ''hello'' @ [13, 10],
            str ''Program completed successfully.'']"
proof -
  let ?w2 = "snd (port_read 1024 (port_write data
                (print (str ''Running '' @ get_devicename filepath @ str ''...'') w1)))"
  have r: "run e filepath w = run_report e HELLO ?w2"
    using run_unfold [OF assms(1,2)] assms(3) by simp
  have d: "decode_utf8 (take (length HELLO - 3) HELLO) = Inr (str ''hello'' @ [13, 10])"
    by (simp add: HELLO_def SUCCESS_def decode_utf8_def str_def)
  have "run_report e HELLO ?w2 =
      (Inr (), print (str ''Program completed successfully.'')
                 (print (str ''Output:'' @ [10] @ str ''hello'' @ [13, 10]) ?w2))"
    unfolding run_report_def d by (simp add: HELLO_def SUCCESS_def and_then_def)
  with r show ?thesis
    using stdout_after_run_command [OF assms(1)] by (simp add: print_def)
qed

theorem run_hello_witness:
  "stdout (snd (run env_plain (str ''blink.uwc'')
     \<lparr>now = 0, line = map (\<lambda>c. (1, [c])) OK @ [(300, HELLO)], sent = [], stdout = []\<rparr>)) =
   [str ''Running blink...'',
    str ''Output:'' @ [10] @ str ''hello'' @ [13, 10],
    str ''Program completed successfully.'']"
proof -
  let ?w = "\<lparr>now = 0, line = map (\<lambda>c. (1, [c])) OK @ [(300, HELLO)], sent = [], stdout = []\<rparr>"
  let ?w1 = "snd (writecmd env_plain [] True 500 ?w)"
  let ?data = "map char_of (command_text (str ''+RUN '' @ quoted (get_devicename (str ''blink.uwc''))))"
  have n: "get_devicename (str ''blink.uwc'') = str ''blink''"
    by (simp add: get_devicename_eq os_path_split_def rfind_def sep_def extsep_def reserved_def
        str_def Let_def)
  have "fst (writecmd env_plain [] True 500 ?w) = Inr (Some [])"
    by (simp add: eval_writecmd OK_def)
  then have h1: "writecmd env_plain [] True 500 ?w = (Inr (Some []), ?w1)"
    by (simp add: prod_eq_iff)
  have h2: "encode_ascii (command_text (str ''+RUN '' @ quoted (get_devicename (str ''blink.uwc''))))
      = Inr ?data"
    unfolding n by (simp add: eval_writecmd quoted_def dquote_def)
  have "line ?w1 = [(300, HELLO)]"
    by (simp add: eval_writecmd OK_def)
  then have h3: "fst (port_read 1024 (port_write ?data
           (print (str ''Running '' @ get_devicename (str ''blink.uwc'') @ str ''...'') ?w1))) = HELLO"
    by (simp add: port_read_def port_write_def print_def HELLO_def SUCCESS_def)
  from run_hello [OF h1 h2 h3] show ?thesis
    unfolding n by (simp add: str_def)
qed

lemma print_changes: "print s w \<noteq> w"
proof
  assume "print s w = w"
  then have "stdout (print s w) = stdout w" by simp
  then show False by (simp add: print_def)
qed

lemma print_print_changes: "print s (print t w) \<noteq> w"
proof
  assume "print s (print t w) = w"
  then have "stdout (print s (print t w)) = stdout w" by simp
  then show False by (simp add: print_def)
qed

lemma run_report_silent: "run_report e output w = (Inr (), w) \<longleftrightarrow> output = IGNORED"
proof
  assume "output = IGNORED"
  then show "run_report e output w = (Inr (), w)"
    by (simp add: run_report_def IGNORED_def SUCCESS_def)
next
  assume a: "run_report e output w = (Inr (), w)"
  show "output = IGNORED"
  proof (rule ccontr)
    assume "output \<noteq> IGNORED"
    with a show False
      by (auto simp: run_report_def and_then_def Let_def print_changes print_print_changes
          split: if_splits sum.splits)
  qed
qed

text \<open>
  Claim C9, as amended: in the immediate-output path the ignored sequence is the three
  bytes newline, \<open>0\<close>, \<open>0\<close>. \<open>run\<close> returns normally with nothing printed after its
  \<open>Running ...\<close> line exactly when the direct read returns these three bytes.
\<close>

theorem run_ignored:
  assumes "writecmd e [] True 500 w = (Inr v, w1)"
    and "encode_ascii (command_text (str ''+RUN '' @ quoted (get_devicename filepath))) = Inr data"
  shows "let r = port_read 1024 (port_write data
                   (print (str ''Running '' @ get_devicename filepath @ str ''...'') w1))
         in stdout (snd r) = stdout w @ [str ''Running '' @ get_devicename filepath @ str ''...''] \<and>
            (run e filepath w = (Inr (), snd r) \<longleftrightarrow> fst r = IGNORED) \<and>
            IGNORED = [CHR 0x0A, CHR ''0'', CHR ''0'']"
  using run_unfold [OF assms] stdout_after_run_command [OF assms(1)]
  by (simp add: Let_def run_report_silent IGNORED_def)

theorem run_ignored_witness:
  "run env_plain (str ''blink.uwc'')
     \<lparr>now = 0, line = map (\<lambda>c. (1, [c])) OK @ [(300, IGNORED)], sent = [], stdout = []\<rparr> =
   (Inr (),
    \<lparr>now = 304, line = [],
     sent = [frame [], frame (str ''+RUN '' @ quoted (str ''blink''))],
     stdout = [str ''Running blink...'']\<rparr>)"
proof -
  let ?w = "\<lparr>now = 0, line = map (\<lambda>c. (1, [c])) OK @ [(300, IGNORED)], sent = [], stdout = []\<rparr>"
  let ?w1 = "snd (writecmd env_plain [] True 500 ?w)"
  let ?data = "map char_of (command_text (str ''+RUN '' @ quoted (get_devicename (str ''blink.uwc''))))"
  let ?r = "port_read 1024 (port_write ?data
           (print (str ''Running '' @ get_devicename (str ''blink.uwc'') @ str ''...'') ?w1))"
  have n: "get_devicename (str ''blink.uwc'') = str ''blink''"
    by (simp add: get_devicename_eq os_path_split_def rfind_def sep_def extsep_def reserved_def
        str_def Let_def)
  have "fst (writecmd env_plain [] True 500 ?w) = Inr (Some [])"
    by (simp add: eval_writecmd OK_def)
  then have h1: "writecmd env_plain [] True 500 ?w = (Inr (Some []), ?w1)"
    by (simp add: prod_eq_iff)
  have h2: "encode_ascii (command_text (str ''+RUN '' @ quoted (get_devicename (str ''blink.uwc''))))
      = Inr ?data"
    unfolding n by (simp add: eval_writecmd quoted_def dquote_def)
  have w1: "?w1 = \<lparr>now = 4, line = [(300, IGNORED)], sent = [frame []], stdout = []\<rparr>"
    by (simp add: eval_writecmd OK_def frame_def)
  have r: "?r = (IGNORED, \<lparr>now = 304, line = [],
     sent = [frame [], frame (str ''+RUN '' @ quoted (str ''blink''))],
     stdout = [str ''Running blink...'']\<rparr>)"
    unfolding w1 n
    by (simp add: port_read_def port_write_def print_def IGNORED_def frame_def str_def)
  from run_ignored [OF h1 h2] show ?thesis
    unfolding Let_def r by simp
qed

text \<open>
  Claim C9 as stated speaks of a sequence of two bytes. There is none: for every two
  bytes the direct read returns, \<open>run\<close> either prints them as immediate output or fails
  to decode them.
\<close>

theorem run_two_bytes_counterexample:
  "\<forall>e w a b.
     run_report e [a, b] w = (Inl UnicodeDecodeError, w) \<or>
     (\<exists>s. run_report e [a, b] w = (Inr (), print (str ''Immediate output:'' @ [10] @ s) w))"
  by (auto simp: run_report_def IGNORED_def decode_utf8_def split: option.splits)

lemma writecmd_no_response:
  "encode_ascii (command_text args) = Inr data \<Longrightarrow>
   writecmd e args False t w = (Inr None, port_write data w)"
  by (simp add: writecmd_def Let_def)

lemma encode_reset: "encode_ascii (command_text (str ''&F 1'')) = Inr (frame (str ''&F 1''))"
  by (simp add: encode_ascii_def command_text_def frame_def str_def startswith_def)

lemma format_clear_fails:
  "writecmd e (str ''Z'') True 5000 (print (str ''Formatting BL600...'') w) = (Inl err, w1) \<Longrightarrow>
   format e w = (Inl err, w1)"
  by (simp add: format_def Let_def and_then_def)

lemma format_probe_fails:
  "writecmd e (str ''Z'') True 5000 (print (str ''Formatting BL600...'') w) = (Inr v1, w1) \<Longrightarrow>
   writecmd e [] True 500 w1 = (Inl err, w2) \<Longrightarrow>
   format e w = (Inl err, w2)"
  by (simp add: format_def Let_def and_then_def)

lemma format_final_probe:
  assumes "writecmd e (str ''Z'') True 5000 (print (str ''Formatting BL600...'') w) = (Inr v1, w1)"
    and "writecmd e [] True 500 w1 = (Inr v2, w2)"
  shows "let w3 = print (str ''Format complete. Reconnecting...'')
                    (snd (port_read 1024 (sleep 200 (port_write (frame (str ''&F 1'')) w2))));
             probe = writecmd e [] True 500 w3
         in writecmd e (str ''&F 1'') False 500 w2 =
              (Inr None, port_write (frame (str ''&F 1'')) w2) \<and>
            fst (format e w) = (case fst probe of Inl err \<Rightarrow> Inl err | Inr _ \<Rightarrow> Inr ()) \<and>
            snd (format e w) = snd probe"
  using assms writecmd_no_response [OF encode_reset, of e 500 w2]
  by (simp add: format_def Let_def and_then_def split: prod.splits sum.splits)

text \<open>
  Claim C8, as amended: the clear command and the first probe expect a response, and
  an error of either is raised by \<open>format\<close> as it is; the factory-reset command expects
  no response and always succeeds, and the bytes read after it are discarded; when the
  clear command and the first probe have succeeded, \<open>format\<close> fails exactly when the
  final probe fails, with that probe's error.
\<close>

theorem format_outcome:
  "(writecmd e (str ''Z'') True 5000 (print (str ''Formatting BL600...'') w) = (Inl err, w1) \<longrightarrow>
      format e w = (Inl err, w1)) \<and>
   (writecmd e (str ''Z'') True 5000 (print (str ''Formatting BL600...'') w) = (Inr v1, w1) \<and>
    writecmd e [] True 500 w1 = (Inl err, w2) \<longrightarrow>
      format e w = (Inl err, w2)) \<and>
   (writecmd e (str ''Z'') True 5000 (print (str ''Formatting BL600...'') w) = (Inr v1, w1) \<and>
    writecmd e [] True 500 w1 = (Inr v2, w2) \<longrightarrow>
      (let w3 = print (str ''Format complete. Reconnecting...'')
                  (snd (port_read 1024 (sleep 200 (port_write (frame (str ''&F 1'')) w2))));
           probe = writecmd e [] True 500 w3
       in writecmd e (str ''&F 1'') False 500 w2 =
            (Inr None, port_write (frame (str ''&F 1'')) w2) \<and>
          fst (format e w) = (case fst probe of Inl err \<Rightarrow> Inl err | Inr _ \<Rightarrow> Inr ()) \<and>
          snd (format e w) = snd probe))"
proof (intro conjI impI)
  assume "writecmd e (str ''Z'') True 5000 (print (str ''Formatting BL600...'') w) = (Inl err, w1)"
  then show "format e w = (Inl err, w1)" by (rule format_clear_fails)
next
  assume "writecmd e (str ''Z'') True 5000 (print (str ''Formatting BL600...'') w) = (Inr v1, w1) \<and>
    writecmd e [] True 500 w1 = (Inl err, w2)"
  then show "format e w = (Inl err, w2)" by (blast intro: format_probe_fails)
next
  assume "writecmd e (str ''Z'') True 5000 (print (str ''Formatting BL600...'') w) = (Inr v1, w1) \<and>
    writecmd e [] True 500 w1 = (Inr v2, w2)"
  then have "writecmd e (str ''Z'') True 5000 (print (str ''Formatting BL600...'') w) = (Inr v1, w1)"
    and "writecmd e [] True 500 w1 = (Inr v2, w2)" by simp_all
  then show "let w3 = print (str ''Format complete. Reconnecting...'')
                  (snd (port_read 1024 (sleep 200 (port_write (frame (str ''&F 1'')) w2))));
           probe = writecmd e [] True 500 w3
       in writecmd e (str ''&F 1'') False 500 w2 =
            (Inr None, port_write (frame (str ''&F 1'')) w2) \<and>
          fst (format e w) = (case fst probe of Inl err \<Rightarrow> Inl err | Inr _ \<Rightarrow> Inr ()) \<and>
          snd (format e w) = snd probe"
    by (rule format_final_probe)
qed

lemmas eval_format =
  format_def and_then_def sleep_def print_def world_format_def reset_reply_def OK_def frame_def

theorem format_outcome_witness:
  "fst (format env_plain world_format) = Inr () \<and>
   sent (snd (format env_plain world_format)) =
     [frame (str ''Z''), frame [], frame (str ''&F 1''), frame []] \<and>
   fst (format env_plain world_probe_error) =
     Inl (RuntimeError (DeviceError (str ''05'') (str ''(no description available)''))) \<and>
   sent (snd (format env_plain world_probe_error)) = [frame (str ''Z''), frame []] \<and>
   fst (format env_plain (incoming reset_reply)) =
     Inl (RuntimeError (DeviceError (str ''05'') (str ''(no description available)'')))"
proof -
  let ?Z = "\<lambda>w. writecmd env_plain (str ''Z'') True 5000 (print (str ''Formatting BL600...'') w)"
  let ?err = "RuntimeError (DeviceError (str ''05'') (str ''(no description available)''))"
  \<comment> \<open>the clear command and both probes are answered\<close>
  let ?w1 = "snd (?Z world_format)"
  let ?w2 = "snd (writecmd env_plain [] True 500 ?w1)"
  let ?w3 = "print (str ''Format complete. Reconnecting...'')
               (snd (port_read 1024 (sleep 200 (port_write (frame (str ''&F 1'')) ?w2))))"
  have "fst (?Z world_format) = Inr (Some [])"
    by (simp add: eval_writecmd eval_format)
  then have h1: "?Z world_format = (Inr (Some []), ?w1)"
    by (simp add: prod_eq_iff)
  have w1: "?w1 = \<lparr>now = 4,
      line = map (\<lambda>c. (1, [c])) OK @ [(100, reset_reply)] @ map (\<lambda>c. (1, [c])) OK,
      sent = [frame (str ''Z'')], stdout = [str ''Formatting BL600...'']\<rparr>"
    by (simp add: eval_writecmd eval_format)
  have "fst (writecmd env_plain [] True 500 ?w1) = Inr (Some [])"
    unfolding w1 by (simp add: eval_writecmd eval_format)
  then have h2: "writecmd env_plain [] True 500 ?w1 = (Inr (Some []), ?w2)"
    by (simp add: prod_eq_iff)
  have w2: "?w2 = \<lparr>now = 8,
      line = [(100, reset_reply)] @ map (\<lambda>c. (1, [c])) OK,
      sent = [frame (str ''Z''), frame []], stdout = [str ''Formatting BL600...'']\<rparr>"
    unfolding w1 by (simp add: eval_writecmd eval_format)
  have w3: "?w3 = \<lparr>now = 308, line = map (\<lambda>c. (1, [c])) OK,
      sent = [frame (str ''Z''), frame [], frame (str ''&F 1'')],
      stdout = [str ''Formatting BL600...'', str ''Format complete. Reconnecting...'']\<rparr>"
    unfolding w2 by (simp add: port_read_def port_write_def eval_format)
  have p: "fst (writecmd env_plain [] True 500 ?w3) = Inr (Some [])"
      "sent (snd (writecmd env_plain [] True 500 ?w3)) =
         [frame (str ''Z''), frame [], frame (str ''&F 1''), frame []]"
    unfolding w3 by (simp_all add: eval_writecmd eval_format)
  from format_outcome [where e = env_plain and w = world_format and ?w1.0 = ?w1 and
      ?v1.0 = "Some []" and ?w2.0 = ?w2 and ?v2.0 = "Some []"] h1 h2
  have "let w3 = ?w3; probe = writecmd env_plain [] True 500 w3
        in writecmd env_plain (str ''&F 1'') False 500 ?w2 =
             (Inr None, port_write (frame (str ''&F 1'')) ?w2) \<and>
           fst (format env_plain world_format) =
             (case fst probe of Inl err \<Rightarrow> Inl err | Inr _ \<Rightarrow> Inr ()) \<and>
           snd (format env_plain world_format) = snd probe"
    by blast
  with p have a: "fst (format env_plain world_format) = Inr ()"
    "sent (snd (format env_plain world_format)) =
       [frame (str ''Z''), frame [], frame (str ''&F 1''), frame []]"
    unfolding Let_def by simp_all
  \<comment> \<open>the probe after the clear command is answered with an error\<close>
  let ?v1 = "snd (?Z world_probe_error)"
  let ?v2 = "snd (writecmd env_plain [] True 500 ?v1)"
  have "fst (?Z world_probe_error) = Inr (Some [])"
    by (simp add: eval_writecmd eval_format world_probe_error_def)
  then have g1: "?Z world_probe_error = (Inr (Some []), ?v1)"
    by (simp add: prod_eq_iff)
  have v1: "?v1 = \<lparr>now = 4, line = map (\<lambda>c. (1, [c])) reset_reply,
      sent = [frame (str ''Z'')], stdout = [str ''Formatting BL600...'']\<rparr>"
    by (simp add: eval_writecmd eval_format world_probe_error_def)
  have "fst (writecmd env_plain [] True 500 ?v1) = Inl ?err"
    unfolding v1 by (simp add: eval_writecmd eval_format)
  then have g2: "writecmd env_plain [] True 500 ?v1 = (Inl ?err, ?v2)"
    by (simp add: prod_eq_iff)
  have s2: "sent ?v2 = [frame (str ''Z''), frame []]"
    unfolding v1 by (simp add: eval_writecmd eval_format)
  from format_outcome [where e = env_plain and w = world_probe_error and err = ?err and
      ?w1.0 = ?v1 and ?v1.0 = "Some []" and ?w2.0 = ?v2] g1 g2
  have "format env_plain world_probe_error = (Inl ?err, ?v2)"
    by blast
  with s2 have b: "fst (format env_plain world_probe_error) = Inl ?err"
    "sent (snd (format env_plain world_probe_error)) = [frame (str ''Z''), frame []]"
    by simp_all
  \<comment> \<open>the clear command is answered with an error\<close>
  let ?u1 = "snd (?Z (incoming reset_reply))"
  have "fst (?Z (incoming reset_reply)) = Inl ?err"
    by (simp add: eval_writecmd eval_format)
  then have f1: "?Z (incoming reset_reply) = (Inl ?err, ?u1)"
    by (simp add: prod_eq_iff)
  from format_outcome [where e = env_plain and w = "incoming reset_reply" and err = ?err and
      ?w1.0 = ?u1] f1
  have "format env_plain (incoming reset_reply) = (Inl ?err, ?u1)"
    by blast
  then have c: "fst (format env_plain (incoming reset_reply)) = Inl ?err"
    by simp
  from a b c show ?thesis by simp
qed

text \<open>
  Claim C8 as stated fails at the first step: the clear command expects a response, and
  a device error in answer to it is raised by \<open>format\<close>, which then sends nothing more.
\<close>

theorem format_clear_error_counterexample:
  "fst (format env_plain (incoming reset_reply)) =
     Inl (RuntimeError (DeviceError (str ''05'') (str ''(no description available)''))) \<and>
   sent (snd (format env_plain (incoming reset_reply))) = [frame (str ''Z'')]"
  by (simp add: eval_writecmd eval_format)

section \<open>Properties of the include preprocessor\<close>

lemma do_include_no_match:
  "pattern_search file = None \<Longrightarrow> do_include depth e file dirname = Inr file"
  by (simp add: do_include.simps)

lemma startswith_first_line:
  assumes "startswith s INCLUDE"
  shows "startswith (takeWhile (\<lambda>c. c \<noteq> newline) s) INCLUDE"
proof -
  from assms have "INCLUDE @ drop (length INCLUDE) s = s"
    unfolding startswith_def by (metis append_take_drop_id)
  then obtain r where s: "s = INCLUDE @ r" by metis
  show ?thesis
    unfolding s by (simp add: startswith_def INCLUDE_def str_def newline_def)
qed

lemma match_here_marker: "match_here s \<noteq> None \<Longrightarrow> startswith s INCLUDE"
  by (simp add: match_here_def split: if_splits)

lemma py_split_Cons:
  "py_split n (c # cs) =
     (if c = n then [] # py_split n cs
      else (c # hd (py_split n cs)) # tl (py_split n cs))"
  using py_split_nonempty [of n cs] by (cases "py_split n cs") auto

lemma search_from_none:
  assumes "bol \<longrightarrow> \<not> startswith (hd (py_split newline s)) INCLUDE"
    and "\<not> list_ex (\<lambda>l. startswith l INCLUDE) (tl (py_split newline s))"
  shows "search_from i bol s = None"
  using assms
proof (induction s arbitrary: i bol)
  case Nil
  then show ?case by simp
next
  case (Cons c cs)
  let ?P = "\<lambda>l. startswith l INCLUDE"
  let ?ps = "py_split newline cs"
  have ps: "?ps = hd ?ps # tl ?ps"
    using py_split_nonempty [of newline cs] by simp
  have m: "(if bol then match_here (c # cs) else None) = None"
  proof (cases bol)
    case True
    with Cons.prems(1) have "\<not> ?P (hd (py_split newline (c # cs)))" by blast
    then have "\<not> ?P (takeWhile (\<lambda>x. x \<noteq> newline) (c # cs))"
      unfolding hd_py_split .
    then have "\<not> ?P (c # cs)"
      using startswith_first_line by blast
    then have "match_here (c # cs) = None"
      using match_here_marker by blast
    then show ?thesis by simp
  next
    case False
    then show ?thesis by simp
  qed
  have "search_from (Suc i) (c = newline) cs = None"
  proof (cases "c = newline")
    case True
    then have "tl (py_split newline (c # cs)) = ?ps"
      by (subst py_split_Cons) simp
    with Cons.prems(2) have "\<not> list_ex ?P ?ps" by simp
    then have "\<not> list_ex ?P (hd ?ps # tl ?ps)" using ps by simp
    then have "\<not> ?P (hd ?ps)" "\<not> list_ex ?P (tl ?ps)" by simp_all
    then show ?thesis by (intro Cons.IH) simp_all
  next
    case False
    then have "tl (py_split newline (c # cs)) = tl ?ps"
      by (subst py_split_Cons) simp
    with Cons.prems(2) have "\<not> list_ex ?P (tl ?ps)" by simp
    with False show ?thesis by (intro Cons.IH) simp_all
  qed
  with m show ?case by simp
qed

lemma pattern_search_none:
  assumes "\<not> list_ex (\<lambda>l. startswith l INCLUDE) (py_split newline doc)"
  shows "pattern_search doc = None"
proof -
  let ?P = "\<lambda>l. startswith l INCLUDE"
  let ?ps = "py_split newline doc"
  have "?ps = hd ?ps # tl ?ps"
    using py_split_nonempty [of newline doc] by simp
  with assms have "\<not> list_ex ?P (hd ?ps # tl ?ps)" by simp
  then have "\<not> ?P (hd ?ps)" "\<not> list_ex ?P (tl ?ps)" by simp_all
  then show ?thesis unfolding pattern_search_def by (intro search_from_none) simp_all
qed

text \<open>
  Claim C4, as amended: a document in which the directive pattern has no match is
  returned as it is, with no occurrence of \<open>#include\<close> removed; this is so in
  particular for every document none of whose lines begins with \<open>#include\<close>.
\<close>

theorem do_include_unchanged:
  "(pattern_search file = None \<longrightarrow> do_include depth e file dirname = Inr file) \<and>
   (\<not> list_ex (\<lambda>l. startswith l INCLUDE) (py_split newline file) \<longrightarrow>
      do_include depth e file dirname = Inr file)"
  using pattern_search_none [of "file"] by (simp add: do_include_no_match)

lemmas eval_include =
  pattern_search_def match_here_def INCLUDE_def startswith_def str_def py_isspace_def
  newline_def dquote_def quoted_def Let_def

theorem do_include_unchanged_witness:
  "pattern_search (str ''print 1 // #include here'' @ [newline] @ str ''x = #include'') = None \<and>
   do_include 0 env_plain (str ''print 1 // #include here'' @ [newline] @ str ''x = #include'')
     (str ''d'') =
   Inr (str ''print 1 // #include here'' @ [newline] @ str ''x = #include'')"
proof -
  let ?f = "str ''print 1 // #include here'' @ [newline] @ str ''x = #include''"
  have h: "pattern_search ?f = None"
    by (simp add: eval_include)
  from do_include_unchanged [of ?f 0 env_plain "str ''d''"] h show ?thesis
    by simp
qed

text \<open>
  Claim C4 as stated takes a directive to be one line. The pattern's \<open>\s+\<close> also matches
  line breaks: a document with the marker on one line and the quoted path on the next has
  no directive line, and yet it is not returned unchanged: the include is resolved, or
  reported missing.
\<close>

theorem do_include_split_directive_counterexample:
  "\<not> has_directive_line split_directive \<and>
   pattern_search split_directive = Some (0, 14, str ''foo'') \<and>
   do_include 0 env_plain split_directive (str ''d'') =
     Inl (RuntimeError (IncludeMissing (str ''d/foo''))) \<and>
   do_include 1 env_include split_directive (str ''d'') = Inr ([newline] @ str ''x'' @ [newline])"
  by (simp add: has_directive_line_def directive_line_def split_directive_def eval_include
      do_include.simps env_include_def env_plain_def os_path_join_def endswith_def sep_def
      os_path_dirname_def os_path_split_def rfind_def)

end
